theory Spec2Isabelle
  imports Complex_Main "HOL-Library.Multiset" "HOL-Library.AList" "HOL-Library.Log_Nat"
begin

section \<open>Strings\<close>

text \<open>
  A JavaScript string is modelled as a \<^typ>\<open>string\<close>, a list of characters with codes
  0..255 (the Latin-1 range of UTF-16 code units); characters beyond that range are outside
  the model. \<open>is_space\<close> is the white space and line terminator class that
  \<^verbatim>\<open>String.prototype.trim\<close> strips, restricted to that range: TAB, LF, VT, FF, CR,
  SPACE and NBSP.
\<close>

definition is_space :: "char \<Rightarrow> bool" where
  "is_space c \<longleftrightarrow>
     c = CHR 0x09 \<or> c = CHR 0x0A \<or> c = CHR 0x0B \<or> c = CHR 0x0C \<or> c = CHR 0x0D
     \<or> c = CHR 0x20 \<or> c = CHR 0xA0"

definition trim :: "string \<Rightarrow> string" where
  "trim s = rev (dropWhile is_space (rev (dropWhile is_space s)))"

text \<open>The right half of \<^verbatim>\<open>trim\<close>: white space at the end removed.\<close>

definition trim_end :: "string \<Rightarrow> string" where
  "trim_end s = rev (dropWhile is_space (rev s))"

text \<open>
  \<^verbatim>\<open>toLowerCase\<close>: A..Z and the Latin-1 capitals U+00C0..U+00DE (without the
  multiplication sign U+00D7) move up by 32; every other character is unchanged.
\<close>

definition lower_char :: "char \<Rightarrow> char" where
  "lower_char c =
     (let n = (of_char c :: nat)
      in if (65 \<le> n \<and> n \<le> 90) \<or> (192 \<le> n \<and> n \<le> 222 \<and> n \<noteq> 215)
         then char_of (n + 32) else c)"

definition toLowerCase :: "string \<Rightarrow> string" where
  "toLowerCase s = map lower_char s"

text \<open>
  \<^verbatim>\<open>a || b\<close> on strings: the empty string is falsy. A missing first array element
  (\<^verbatim>\<open>undefined\<close>) is falsy too, so \<^verbatim>\<open>xs[0]\<close> in such a chain is read by
  \<open>first_or_empty\<close>, with the empty string standing for \<^verbatim>\<open>undefined\<close>.
\<close>

definition js_or :: "string \<Rightarrow> string \<Rightarrow> string" where
  "js_or a b = (if a \<noteq> [] then a else b)"

definition first_or_empty :: "string list \<Rightarrow> string" where
  "first_or_empty xs = (case xs of [] \<Rightarrow> [] | x # _ \<Rightarrow> x)"

section \<open>CSV parser\<close>

text \<open>
  \<^verbatim>\<open>text.split(/\r?\n/)\<close>: a line ends at LF or at CR LF; a CR that is not followed by
  LF stays in its line. Splitting the empty string gives one empty line, and a trailing
  separator gives a trailing empty line.
\<close>

fun cons_char :: "char \<Rightarrow> string list \<Rightarrow> string list" where
  "cons_char c [] = [[c]]"
| "cons_char c (l # ls) = (c # l) # ls"

fun split_lines :: "string \<Rightarrow> string list" where
  "split_lines [] = [[]]"
| "split_lines (c # cs) =
     (if c = CHR 0x0A then [] # split_lines cs
      else if c = CHR 0x0D then
        (case cs of
           [] \<Rightarrow> [[c]]
         | d # ds \<Rightarrow> if d = CHR 0x0A then [] # split_lines ds
                    else cons_char c (split_lines cs))
      else cons_char c (split_lines cs))"

text \<open>
  \<^verbatim>\<open>line.split(/,(?![^\"]*\")/g)\<close>: a comma separates two fields unless a double quote
  occurs anywhere after it in the line (the negative lookahead fails exactly then).
\<close>

fun split_fields :: "string \<Rightarrow> string list" where
  "split_fields [] = [[]]"
| "split_fields (c # cs) =
     (if c = CHR '','' \<and> CHR 0x22 \<notin> set cs then [] # split_fields cs
      else cons_char c (split_fields cs))"

text \<open>\<^verbatim>\<open>s.split(/;|\|/)\<close>: pieces between semicolons and vertical bars.\<close>

fun split_list :: "string \<Rightarrow> string list" where
  "split_list [] = [[]]"
| "split_list (c # cs) =
     (if c = CHR '';'' \<or> c = CHR ''|'' then [] # split_list cs
      else cons_char c (split_list cs))"

text \<open>\<^verbatim>\<open>str.split(/;|\|/).map((s) => s.trim()).filter(Boolean)\<close>\<close>

definition parse_list :: "string \<Rightarrow> string list" where
  "parse_list str = filter (\<lambda>s. s \<noteq> []) (map trim (split_list str))"

record WordEntry =
  word :: string
  meaning :: string
  synonyms :: "string list"
  antonyms :: "string list"
  example :: string

text \<open>
  The body of the \<^verbatim>\<open>for (const line of lines)\<close> loop of \<^verbatim>\<open>parseCSV\<close>, with the array
  \<^verbatim>\<open>words\<close> as accumulator. The destructuring reads the first five parts only.
\<close>

fun parse_loop :: "string list \<Rightarrow> WordEntry list \<Rightarrow> WordEntry list" where
  "parse_loop [] words = words"
| "parse_loop (line # rest) words =
     (if line = [] then parse_loop rest words
      else
        let parts = split_fields line
        in if length parts < 5 then parse_loop rest words
           else parse_loop rest
                  (words @ [\<lparr>word = trim (parts ! 0), meaning = trim (parts ! 1),
                             synonyms = parse_list (parts ! 2),
                             antonyms = parse_list (parts ! 3),
                             example = trim (parts ! 4)\<rparr>]))"

text \<open>\<^verbatim>\<open>lines.shift()\<close> removes the header, whatever it holds.\<close>

definition parseCSV :: "string \<Rightarrow> WordEntry list" where
  "parseCSV text = parse_loop (tl (split_lines (trim text))) []"

text \<open>
  What the loop does with one line, for stating its properties: \<open>line_kept\<close> is the
  negation of the two \<^verbatim>\<open>continue\<close> guards, \<open>line_entry\<close> the object pushed otherwise.
\<close>

definition line_kept :: "string \<Rightarrow> bool" where
  "line_kept line \<longleftrightarrow> line \<noteq> [] \<and> \<not> length (split_fields line) < 5"

definition line_entry :: "string \<Rightarrow> WordEntry" where
  "line_entry line =
     (let parts = split_fields line
      in \<lparr>word = trim (parts ! 0), meaning = trim (parts ! 1),
          synonyms = parse_list (parts ! 2), antonyms = parse_list (parts ! 3),
          example = trim (parts ! 4)\<rparr>)"

section \<open>Shuffling\<close>

text \<open>
  \<^verbatim>\<open>Math.random\<close> is an explicit source \<open>rnd\<close> of natural numbers together with the
  number \<open>k\<close> of draws made so far. \<^verbatim>\<open>Math.floor(Math.random() * (i + 1))\<close> is some index
  in \<open>0..i\<close>; the model takes \<open>rnd k mod (i + 1)\<close>, which ranges over exactly these
  indices as \<open>rnd\<close> varies. Every function that draws returns the new count.
\<close>

definition swap :: "nat \<Rightarrow> nat \<Rightarrow> 'a list \<Rightarrow> 'a list" where
  "swap i j array = array[i := array ! j, j := array ! i]"

fun shuffle_loop :: "(nat \<Rightarrow> nat) \<Rightarrow> nat \<Rightarrow> nat \<Rightarrow> 'a list \<Rightarrow> 'a list \<times> nat" where
  "shuffle_loop rnd k 0 array = (array, k)"
| "shuffle_loop rnd k (Suc i) array =
     shuffle_loop rnd (Suc k) i (swap (Suc i) (rnd k mod (Suc i + 1)) array)"

definition shuffleArray :: "(nat \<Rightarrow> nat) \<Rightarrow> nat \<Rightarrow> 'a list \<Rightarrow> 'a list \<times> nat" where
  "shuffleArray rnd k array = shuffle_loop rnd k (length array - 1) array"

text \<open>A source whose every draw is \<open>v\<close>, for running the model on examples.\<close>

definition const_rnd :: "nat \<Rightarrow> nat \<Rightarrow> nat" where
  "const_rnd v k = v"

section \<open>Distractor generator\<close>

text \<open>\<^verbatim>\<open>meaning.split(' ')[0]\<close>: the characters before the first space.\<close>

definition first_token :: "string \<Rightarrow> string" where
  "first_token s = takeWhile (\<lambda>c. c \<noteq> CHR '' '') s"

text \<open>\<^verbatim>\<open>entry.synonyms[0] || entry.meaning.split(' ')[0] || entry.word\<close>\<close>

definition correct_option :: "WordEntry \<Rightarrow> string" where
  "correct_option entry =
     js_or (first_or_empty (synonyms entry)) (js_or (first_token (meaning entry)) (word entry))"

fun collect_candidates :: "WordEntry \<Rightarrow> WordEntry list \<Rightarrow> string list \<Rightarrow> string list" where
  "collect_candidates entry [] candidates = candidates"
| "collect_candidates entry (other # rest) candidates =
     (if word other = word entry then collect_candidates entry rest candidates
      else collect_candidates entry rest (candidates @ synonyms other))"

text \<open>
  \<^verbatim>\<open>Array.from(new Set(xs))\<close>: the elements of \<open>xs\<close> in order of first occurrence,
  compared as strings (case matters).
\<close>

definition set_add :: "string list \<Rightarrow> string \<Rightarrow> string list" where
  "set_add seen x = (if x \<in> set seen then seen else seen @ [x])"

definition new_Set :: "string list \<Rightarrow> string list" where
  "new_Set xs = foldl set_add [] xs"

text \<open>The \<^verbatim>\<open>for (const cand of candidateArray)\<close> loop with its \<^verbatim>\<open>break\<close>.\<close>

fun pick_distractors :: "WordEntry \<Rightarrow> string list \<Rightarrow> string list \<Rightarrow> string list" where
  "pick_distractors entry [] distractors = distractors"
| "pick_distractors entry (cand # rest) distractors =
     (if 3 \<le> length distractors then distractors
      else if list_ex (\<lambda>s. toLowerCase s = toLowerCase cand) (synonyms entry)
        then pick_distractors entry rest distractors
        else pick_distractors entry rest (distractors @ [cand]))"

text \<open>
  The first \<^verbatim>\<open>while\<close> loop; the index \<^verbatim>\<open>i\<close> walks \<^verbatim>\<open>allEntries\<close> from the front, so
  the model recurs on the entries not yet visited.
\<close>

fun fallback_words :: "WordEntry \<Rightarrow> string \<Rightarrow> WordEntry list \<Rightarrow> string list \<Rightarrow> string list" where
  "fallback_words entry correct [] distractors = distractors"
| "fallback_words entry correct (otherWord # rest) distractors =
     (if length distractors < 3 then
        (if word otherWord \<noteq> word entry
            \<and> toLowerCase (word otherWord) \<noteq> toLowerCase correct
         then fallback_words entry correct rest (distractors @ [word otherWord])
         else fallback_words entry correct rest distractors)
      else distractors)"

text \<open>The second \<^verbatim>\<open>while\<close> loop, which pads with empty strings.\<close>

function pad_distractors :: "string list \<Rightarrow> string list" where
  "pad_distractors distractors =
     (if length distractors < 3 then pad_distractors (distractors @ [[]]) else distractors)"
  by pat_completeness auto
termination
  by (relation "measure (\<lambda>d. 3 - length d)") auto

text \<open>The distractors as they stand before the padding loop, given the shuffled candidates.\<close>

definition found_distractors :: "(nat \<Rightarrow> nat) \<Rightarrow> nat \<Rightarrow> WordEntry \<Rightarrow> WordEntry list \<Rightarrow> string list" where
  "found_distractors rnd k entry allEntries =
     (let correct = correct_option entry;
          candidates = collect_candidates entry allEntries [];
          candidateSet = new_Set (filter (\<lambda>c. c \<noteq> [] \<and> toLowerCase c \<noteq> toLowerCase correct)
                                   candidates);
          candidateArray = fst (shuffleArray rnd k candidateSet);
          distractors = pick_distractors entry candidateArray []
      in fallback_words entry correct allEntries distractors)"

definition generateOptions ::
  "(nat \<Rightarrow> nat) \<Rightarrow> nat \<Rightarrow> WordEntry \<Rightarrow> WordEntry list \<Rightarrow> string list \<times> nat" where
  "generateOptions rnd k entry allEntries =
     (let correct = correct_option entry;
          candidates = collect_candidates entry allEntries [];
          candidateSet = new_Set (filter (\<lambda>c. c \<noteq> [] \<and> toLowerCase c \<noteq> toLowerCase correct)
                                   candidates);
          (candidateArray, k1) = shuffleArray rnd k candidateSet;
          distractors = pick_distractors entry candidateArray [];
          distractors = fallback_words entry correct allEntries distractors;
          distractors = pad_distractors distractors;
          options = correct # take 3 distractors
      in shuffleArray rnd k1 options)"

text \<open>The number of options that equal \<open>c\<close> when case is ignored.\<close>

definition match_count :: "string \<Rightarrow> string list \<Rightarrow> nat" where
  "match_count c opts = length (filter (\<lambda>opt. toLowerCase opt = toLowerCase c) opts)"

section \<open>Numbers\<close>


text \<open>
  JavaScript numbers are IEEE 754 binary64 values. A finite double is a rational number,
  and each arithmetic operation returns the exact result rounded to the nearest double,
  ties to the even significand. \<open>to_double\<close> is that rounding for a significand of 53
  bits and an unbounded exponent: overflow and subnormal numbers do not occur for
  quotients and percentages of counters below \<open>2 ^ 53\<close>. \<open>binade x\<close> is the exponent
  \<open>e\<close> with \<open>2 ^ e \<le> x < 2 ^ (e + 1)\<close>, for positive \<open>x\<close>.
\<close>

definition pow2 :: "int \<Rightarrow> rat" where
  "pow2 e = (if 0 \<le> e then 2 ^ nat e else 1 / 2 ^ nat (- e))"

definition binade :: "rat \<Rightarrow> int" where
  "binade x =
     (if 1 \<le> x then int (floorlog 2 (nat \<lfloor>x\<rfloor>)) - 1
      else - int (floorlog 2 (nat \<lceil>1 / x\<rceil> - 1)))"

definition round_ties_even :: "rat \<Rightarrow> int" where
  "round_ties_even x =
     (let f = \<lfloor>x\<rfloor>; d = x - of_int f
      in if d < 1 / 2 then f
         else if 1 / 2 < d then f + 1
         else if even f then f else f + 1)"

definition to_double :: "rat \<Rightarrow> rat" where
  "to_double x =
     (if x = 0 then 0
      else
        let ulp = pow2 (binade \<bar>x\<bar> - 52)
        in sgn x * of_int (round_ties_even (\<bar>x\<bar> / ulp)) * ulp)"

definition js_div :: "rat \<Rightarrow> rat \<Rightarrow> rat" where
  "js_div a b = to_double (a / b)"

definition js_mul :: "rat \<Rightarrow> rat \<Rightarrow> rat" where
  "js_mul a b = to_double (a * b)"

text \<open>\<^verbatim>\<open>Math.round\<close>: the nearest integer, a tie going up.\<close>

definition Math_round :: "rat \<Rightarrow> int" where
  "Math_round x = \<lfloor>x + 1 / 2\<rfloor>"

text \<open>
  \<^verbatim>\<open>x += 1\<close> and \<^verbatim>\<open>x + y\<close> on numbers that hold non-negative integers: the sum, rounded
  to a double. A non-negative integer double is below \<open>2 ^ 1024\<close>, and so is the rounded
  sum after \<^verbatim>\<open>+= 1\<close>, so no overflow occurs in a counter.
\<close>

definition js_incr :: "nat \<Rightarrow> nat" where
  "js_incr n = nat \<lfloor>to_double (rat_of_nat n + 1)\<rfloor>"

section \<open>Progress store\<close>

text \<open>
  A value under a \<^verbatim>\<open>localStorage\<close> key is either the \<^verbatim>\<open>JSON.stringify\<close> text of a
  value, which \<^verbatim>\<open>JSON.parse\<close> gives back, or a text that \<^verbatim>\<open>JSON.parse\<close> rejects.
  The value under \<^verbatim>\<open>progress\<close> is a dictionary of dictionaries of counters, and a
  counter holds two non-negative integers.

  A JavaScript object used as a dictionary is the map of its own properties. The lookup
  \<^verbatim>\<open>obj[k]\<close> finds an own property first and then, for the twelve names below, the
  property that every object inherits from \<^verbatim>\<open>Object.prototype\<close>: eleven built-in
  functions, and for \<^verbatim>\<open>__proto__\<close> the prototype object itself. All of these are truthy.
  \<^verbatim>\<open>JSON.stringify\<close> writes own properties only. The script is a classic script, so an
  assignment that cannot be made is skipped without an error.
\<close>

datatype 'a stored = Json 'a | Garbage string

record Counter =
  attempts :: nat
  cnt_correct :: nat

type_synonym WordCounters = "string \<rightharpoonup> Counter"
type_synonym Progress = "string \<rightharpoonup> WordCounters"

text \<open>
  The entries of a user's dictionary in the order of \<^verbatim>\<open>Object.keys\<close>, as the dashboards
  walk them.
\<close>

type_synonym UserProgress = "(string \<times> Counter) list"

record SessionResult =
  res_word :: string
  res_correct :: bool

record Storage =
  st_username :: "string option"
  st_words :: "WordEntry list stored option"
  st_progress :: "Progress stored option"

definition function_keys :: "string list" where
  "function_keys =
     [''constructor'', ''hasOwnProperty'', ''isPrototypeOf'', ''propertyIsEnumerable'',
      ''toLocaleString'', ''toString'', ''valueOf'', ''__defineGetter__'',
      ''__defineSetter__'', ''__lookupGetter__'', ''__lookupSetter__'']"

definition inherited :: "string \<Rightarrow> bool" where
  "inherited k \<longleftrightarrow> k = ''__proto__'' \<or> k \<in> set function_keys"

text \<open>
  \<^verbatim>\<open>progress = {}\<close>, replaced by the parsed value when the key is present and parses.
\<close>

definition load_progress :: "Storage \<Rightarrow> Progress" where
  "load_progress store =
     (case st_progress store of
        None \<Rightarrow> Map.empty
      | Some (Garbage _) \<Rightarrow> Map.empty
      | Some (Json progress) \<Rightarrow> progress)"

text \<open>
  The body of \<^verbatim>\<open>results.forEach\<close> when \<^verbatim>\<open>progress[username]\<close> is an own dictionary
  \<open>up\<close>. The three statements in turn: a counter is created when the lookup of the
  word finds nothing, own or inherited; \<^verbatim>\<open>attempts += 1\<close> and \<^verbatim>\<open>correct += 1\<close> change
  the own counter if there is one. When the lookup finds an inherited value instead, the
  two additions write onto that shared object, and the dictionary keeps no property for
  the word.
\<close>

definition record_result :: "WordCounters \<Rightarrow> SessionResult \<Rightarrow> WordCounters" where
  "record_result up res =
     (let w = res_word res;
          up1 = (if up w = None \<and> \<not> inherited w
                 then up(w \<mapsto> \<lparr>attempts = 0, cnt_correct = 0\<rparr>)
                 else up);
          up2 = (case up1 w of
                   None \<Rightarrow> up1
                 | Some c \<Rightarrow> up1(w \<mapsto> c\<lparr>attempts := js_incr (attempts c)\<rparr>))
      in if res_correct res
         then (case up2 w of
                 None \<Rightarrow> up2
               | Some c \<Rightarrow> up2(w \<mapsto> c\<lparr>cnt_correct := js_incr (cnt_correct c)\<rparr>))
         else up2)"

text \<open>
  When the user name is not an own key but an inherited name, \<^verbatim>\<open>progress[username]\<close> is
  the inherited object: no dictionary is created for the user, the loop writes onto the
  inherited object, and nothing of it is persisted. The lookup \<^verbatim>\<open>progress[username][w]\<close>
  on such an object throws a \<^verbatim>\<open>TypeError\<close> in two cases: on a built-in function the
  properties \<^verbatim>\<open>caller\<close> and \<^verbatim>\<open>arguments\<close> are accessors that throw; on
  \<^verbatim>\<open>Object.prototype\<close> the lookup of \<^verbatim>\<open>__proto__\<close> gives \<^verbatim>\<open>null\<close>, and the assignment
  that follows asks for a new prototype of \<^verbatim>\<open>Object.prototype\<close>, which is refused with that
  error. The error leaves \<^verbatim>\<open>updateProgress\<close> before \<^verbatim>\<open>setItem\<close>, so the store is then as
  the call found it; an outcome \<open>Inl\<close> holds the error and that store.
\<close>

datatype js_error = TypeError

definition lookup_throws :: "string \<Rightarrow> string \<Rightarrow> bool" where
  "lookup_throws username w \<longleftrightarrow>
     (username = ''__proto__'' \<and> w = ''__proto__'')
     \<or> (username \<in> set function_keys \<and> (w = ''caller'' \<or> w = ''arguments''))"

type_synonym outcome = "(js_error \<times> Storage) + Storage"

definition updateProgress :: "string \<Rightarrow> SessionResult list \<Rightarrow> Storage \<Rightarrow> outcome" where
  "updateProgress username results store =
     (if username = [] then Inr store
      else
        let progress = load_progress store;
            progress1 = (if progress username = None \<and> \<not> inherited username
                         then progress(username \<mapsto> Map.empty)
                         else progress)
        in case progress1 username of
             Some up \<Rightarrow>
               Inr (store\<lparr>st_progress :=
                        Some (Json (progress1(username \<mapsto> foldl record_result up results)))\<rparr>)
           | None \<Rightarrow>
               if list_ex (\<lambda>res. lookup_throws username (res_word res)) results
               then Inl (TypeError, store)
               else Inr (store\<lparr>st_progress := Some (Json progress1)\<rparr>))"

text \<open>
  One call after another: a call that throws ends the run with the store as it is then,
  and the second call starts from the store that the first one left.
\<close>

definition and_then :: "outcome \<Rightarrow> (Storage \<Rightarrow> outcome) \<Rightarrow> outcome" where
  "and_then r f = (case r of Inl e \<Rightarrow> Inl e | Inr store \<Rightarrow> f store)"

text \<open>The store at the end of a run, and the error that ended it, if any.\<close>

definition final_store :: "outcome \<Rightarrow> Storage" where
  "final_store r = (case r of Inl (e, store) \<Rightarrow> store | Inr store \<Rightarrow> store)"

definition raised :: "outcome \<Rightarrow> js_error option" where
  "raised r = (case r of Inl (e, store) \<Rightarrow> Some e | Inr store \<Rightarrow> None)"

text \<open>The counters \<^verbatim>\<open>progress[username][word]\<close> that a later page load reads back.\<close>

definition counter_of :: "Storage \<Rightarrow> string \<Rightarrow> string \<Rightarrow> Counter option" where
  "counter_of store username w =
     (case load_progress store username of
        None \<Rightarrow> None
      | Some up \<Rightarrow> up w)"

text \<open>A counter as the loop sees it: absent counters are created with both fields zero.\<close>

definition old_counter :: "Counter option \<Rightarrow> Counter" where
  "old_counter co = (case co of None \<Rightarrow> \<lparr>attempts = 0, cnt_correct = 0\<rparr> | Some c \<Rightarrow> c)"

text \<open>The handler \<^verbatim>\<open>reader.onload\<close> of the upload button in \<^verbatim>\<open>initAdmin\<close>.\<close>

datatype upload_outcome = Alert string | Uploaded nat

definition upload_onload :: "string \<Rightarrow> Storage \<Rightarrow> Storage \<times> upload_outcome" where
  "upload_onload text store =
     (let entries = parseCSV text
      in if length entries = 0 then (store, Alert ''No entries found in the CSV file.'')
         else (store\<lparr>st_words := Some (Json entries)\<rparr>, Uploaded (length entries)))"

section \<open>Session engine\<close>

record SessionCard =
  entry :: WordEntry
  options :: "string list"
  correct :: string

text \<open>
  In the functions below \<open>crd\<close> is the source's \<^verbatim>\<open>card\<close>.
  The closure state of \<^verbatim>\<open>initFlashcards\<close>: the queue, the results, the card on display,
  the number of random draws made so far, and whether \<^verbatim>\<open>finishSession\<close> has run.
\<close>

record Session =
  queue :: "SessionCard list"
  results :: "SessionResult list"
  currentCard :: "SessionCard option"
  draws :: nat
  finished :: bool

text \<open>
  The \<^verbatim>\<open>map\<close> callback that prepares the session, applied to the drawn entries from left
  to right. The card stores \<^verbatim>\<open>entry.synonyms[0] || entry.word\<close>.
\<close>

fun make_cards ::
  "(nat \<Rightarrow> nat) \<Rightarrow> nat \<Rightarrow> WordEntry list \<Rightarrow> WordEntry list \<Rightarrow> SessionCard list \<times> nat" where
  "make_cards rnd k allWords [] = ([], k)"
| "make_cards rnd k allWords (e # es) =
     (let (opts, k1) = generateOptions rnd k e allWords;
          crd = \<lparr>entry = e, options = opts,
                 correct = js_or (first_or_empty (synonyms e)) (word e)\<rparr>;
          (cards, k2) = make_cards rnd k1 allWords es
      in (crd # cards, k2))"

definition showCard :: "Session \<Rightarrow> Session" where
  "showCard s =
     (case queue s of
        [] \<Rightarrow> s\<lparr>finished := True\<rparr>
      | crd # rest \<Rightarrow> s\<lparr>currentCard := Some crd, queue := rest\<rparr>)"

definition handleOptionClick ::
  "(nat \<Rightarrow> nat) \<Rightarrow> WordEntry list \<Rightarrow> string \<Rightarrow> SessionCard \<Rightarrow> Session \<Rightarrow> Session" where
  "handleOptionClick rnd allWords selectedOption crd s =
     (let correctText = correct crd;
          isCorrect = (toLowerCase selectedOption = toLowerCase correctText);
          s1 = s\<lparr>results := results s @ [\<lparr>res_word = word (entry crd), res_correct = isCorrect\<rparr>]\<rparr>
      in if \<not> isCorrect then
           let (opts, k1) = generateOptions rnd (draws s1) (entry crd) allWords
           in s1\<lparr>queue := queue s1 @ [\<lparr>entry = entry crd, options = opts, correct = correct crd\<rparr>],
                 draws := k1\<rparr>
         else s1)"

text \<open>
  \<^verbatim>\<open>initFlashcards\<close> after \<^verbatim>\<open>loadWords\<close> has delivered \<open>allWords\<close>: no session for an
  empty pool; otherwise the shuffled pool, the first \<open>min 10 (length entries)\<close> cards and
  the first call of \<^verbatim>\<open>showCard\<close>.
\<close>

definition initFlashcards :: "(nat \<Rightarrow> nat) \<Rightarrow> WordEntry list \<Rightarrow> Session option" where
  "initFlashcards rnd allWords =
     (if allWords = [] then None
      else
        let (entries, k) = shuffleArray rnd 0 allWords;
            (session, k1) = make_cards rnd k allWords (take (min 10 (length entries)) entries)
        in Some (showCard \<lparr>queue = session, results = [], currentCard = None,
                           draws = k1, finished = False\<rparr>))"

text \<open>
  The user's part. A card on display has one button per option; a click on button
  \<open>pick\<close> calls \<^verbatim>\<open>handleOptionClick\<close> with that option's text and disables the buttons,
  and the Next button that appears then calls \<^verbatim>\<open>showCard\<close>. One \<open>turn\<close> is this pair of
  clicks; after \<^verbatim>\<open>finishSession\<close> the page has no buttons left. \<open>play\<close> runs a session
  over the user's successive picks.
\<close>

definition turn :: "(nat \<Rightarrow> nat) \<Rightarrow> WordEntry list \<Rightarrow> Session \<Rightarrow> nat \<Rightarrow> Session" where
  "turn rnd allWords s pick =
     (if finished s then s
      else case currentCard s of
        None \<Rightarrow> s
      | Some crd \<Rightarrow>
          if pick < length (options crd)
          then showCard (handleOptionClick rnd allWords (options crd ! pick) crd s)
          else s)"

definition play :: "(nat \<Rightarrow> nat) \<Rightarrow> WordEntry list \<Rightarrow> Session \<Rightarrow> nat list \<Rightarrow> Session" where
  "play rnd allWords s picks = foldl (turn rnd allWords) s picks"

text \<open>The number of incorrect answers among the results.\<close>

definition incorrect_count :: "SessionResult list \<Rightarrow> nat" where
  "incorrect_count rs = length (filter (\<lambda>r. \<not> res_correct r) rs)"

text \<open>
  The invariant of a session of \<open>n\<close> drawn cards: every card is answered, queued or on
  display, and each incorrect answer has added one card; an unfinished session has a card
  on display, and a finished one has an empty queue.
\<close>

definition session_inv :: "nat \<Rightarrow> Session \<Rightarrow> bool" where
  "session_inv n s \<longleftrightarrow>
     length (results s) + length (queue s) + (if finished s then 0 else 1)
       = n + incorrect_count (results s)
     \<and> (finished s \<or> currentCard s \<noteq> None)
     \<and> (queue s = [] \<or> \<not> finished s)"

section \<open>Accuracy\<close>

text \<open>
  \<^verbatim>\<open>attempts ? Math.round((correct / attempts) * 100) : 0\<close>, the expression that
  \<^verbatim>\<open>renderDashboard\<close> uses for the summary and for each row, and
  \<^verbatim>\<open>renderAdminProgress\<close> for each student. The division is never made with a zero
  divisor.
\<close>

definition accuracy :: "nat \<Rightarrow> nat \<Rightarrow> int" where
  "accuracy n_correct n_attempts =
     (if n_attempts = 0 then 0
      else Math_round (js_mul (js_div (of_nat n_correct) (of_nat n_attempts)) 100))"

text \<open>The two \<^verbatim>\<open>forEach\<close> sums over the words of a user, and the accuracy shown for them.\<close>

definition totalAttempts :: "UserProgress \<Rightarrow> nat" where
  "totalAttempts userProgress = foldl (\<lambda>total (w, c). total + attempts c) 0 userProgress"

definition totalCorrect :: "UserProgress \<Rightarrow> nat" where
  "totalCorrect userProgress = foldl (\<lambda>total (w, c). total + cnt_correct c) 0 userProgress"

definition summary_accuracy :: "UserProgress \<Rightarrow> int" where
  "summary_accuracy userProgress = accuracy (totalCorrect userProgress) (totalAttempts userProgress)"

definition row_accuracy :: "Counter \<Rightarrow> int" where
  "row_accuracy c = accuracy (cnt_correct c) (attempts c)"

text \<open>The percentage the specification names: \<open>100 * correct / attempts\<close>, a tie going up.\<close>

definition exact_percent :: "nat \<Rightarrow> nat \<Rightarrow> int" where
  "exact_percent n_correct n_attempts =
     (if n_attempts = 0 then 0
      else \<lfloor>100 * rat_of_nat n_correct / rat_of_nat n_attempts + 1 / 2\<rfloor>)"

section \<open>Properties of the parser\<close>

lemma cons_char_nonempty: "cons_char c ls \<noteq> []"
  by (cases ls) simp_all

lemma cons_char_append: "P \<noteq> [] \<Longrightarrow> cons_char c (P @ Q) = cons_char c P @ Q"
  by (cases P) simp_all

lemma split_fields_nonempty: "split_fields s \<noteq> []"
  by (induction s) (simp_all add: cons_char_nonempty)

lemma split_fields_append_comma:
  "CHR 0x22 \<notin> set x \<Longrightarrow> split_fields (l @ CHR '','' # x) = split_fields l @ split_fields x"
  by (induction l) (simp_all add: cons_char_append split_fields_nonempty)

lemma parse_loop_acc: "parse_loop ls ws = ws @ map line_entry (filter line_kept ls)"
  by (induction ls arbitrary: ws) (simp_all add: Let_def line_entry_def line_kept_def)

lemma split_lines_LF:
  "\<exists>P. P \<noteq> [] \<and> (\<forall>rest. split_lines (x @ CHR 0x0A # rest) = P @ split_lines rest)"
proof (induction x rule: split_lines.induct)
  case 1
  have "\<forall>rest. split_lines ([] @ CHR 0x0A # rest) = [[]] @ split_lines rest" by simp
  then show ?case by blast
next
  case (2 c cs)
  show ?case
  proof (cases "c = CHR 0x0A")
    case True
    with "2.IH"(1) obtain P where
      P: "P \<noteq> []" "\<forall>rest. split_lines (cs @ CHR 0x0A # rest) = P @ split_lines rest"
      by blast
    show ?thesis
      using P True by (intro exI[of _ "[] # P"]) simp
  next
    case notLF: False
    show ?thesis
    proof (cases "c = CHR 0x0D \<and> (cs = [] \<or> hd cs = CHR 0x0A)")
      case True
      show ?thesis
      proof (cases cs)
        case Nil
        with True notLF show ?thesis by (intro exI[of _ "[[]]"]) simp
      next
        case (Cons d ds)
        with True have d: "d = CHR 0x0A" and c: "c = CHR 0x0D" by simp_all
        from "2.IH"(2)[OF notLF c Cons d] obtain P where
          P: "P \<noteq> []" "\<forall>rest. split_lines (ds @ CHR 0x0A # rest) = P @ split_lines rest"
          by blast
        show ?thesis
          using P c d Cons by (intro exI[of _ "[] # P"]) simp
      qed
    next
      case False
      have "\<exists>P. P \<noteq> [] \<and> (\<forall>rest. split_lines (cs @ CHR 0x0A # rest) = P @ split_lines rest)"
      proof (cases "c = CHR 0x0D")
        case True
        with False obtain d ds where cs: "cs = d # ds" and d: "d \<noteq> CHR 0x0A"
          by (cases cs) auto
        from "2.IH"(3)[OF notLF True cs d] show ?thesis .
      next
        case F: False
        from "2.IH"(4)[OF notLF F] show ?thesis .
      qed
      then obtain P where
        P: "P \<noteq> []" "\<forall>rest. split_lines (cs @ CHR 0x0A # rest) = P @ split_lines rest"
        by blast
      have "split_lines ((c # cs) @ CHR 0x0A # rest) = cons_char c P @ split_lines rest" for rest
        using False notLF P by (cases cs) (auto simp: cons_char_append)
      then show ?thesis
        using cons_char_nonempty by blast
    qed
  qed
qed

lemma split_lines_plain:
  "CHR 0x0A \<notin> set l \<Longrightarrow> CHR 0x0D \<notin> set l \<Longrightarrow>
   split_lines (l @ CHR 0x0A # rest) = l # split_lines rest"
  by (induction l) auto

lemma dropWhile_all: "\<forall>c\<in>set a. P c \<Longrightarrow> dropWhile P (a @ s) = dropWhile P s"
  by (induction a) simp_all

lemma trim_space_prefix: "\<forall>c\<in>set a. is_space c \<Longrightarrow> trim (a @ s) = trim s"
  by (simp add: trim_def dropWhile_all)

lemma dropWhile_some: "\<exists>c\<in>set a. \<not> P c \<Longrightarrow> dropWhile P (a @ s) = dropWhile P a @ s"
  by auto

lemma trim_space_suffix:
  assumes "\<forall>c\<in>set b. is_space c" shows "trim (s @ b) = trim s"
proof (cases "\<forall>c\<in>set s. is_space c")
  case True
  with assms have "dropWhile is_space (s @ b) = []" "dropWhile is_space s = []"
    by auto
  then show ?thesis by (simp only: trim_def)
next
  case False
  then have 1: "dropWhile is_space (s @ b) = dropWhile is_space s @ b"
    by (simp add: dropWhile_some)
  have 2: "dropWhile is_space (rev b @ t) = dropWhile is_space t" for t
    using assms by (intro dropWhile_all) simp
  show ?thesis
    by (simp add: trim_def 1 2)
qed

lemma trim_middle:
  assumes "\<exists>c\<in>set a. \<not> is_space c" and "\<exists>c\<in>set b. \<not> is_space c"
  shows "trim (a @ m @ b) = dropWhile is_space a @ m @ rev (dropWhile is_space (rev b))"
proof -
  have 1: "dropWhile is_space (a @ m @ b) = dropWhile is_space a @ m @ b"
    using assms(1) by (simp add: dropWhile_some)
  have 2: "dropWhile is_space (rev b @ t) = dropWhile is_space (rev b) @ t" for t
    using assms(2) by (simp add: dropWhile_some)
  show ?thesis
    by (simp add: trim_def 1 2)
qed

lemma parseCSV_lines:
  "parseCSV text = map line_entry (filter line_kept (tl (split_lines (trim text))))"
  by (simp add: parseCSV_def parse_loop_acc)

lemma parse_insert_line:
  assumes a: "\<exists>c\<in>set a. \<not> is_space c" and b: "\<exists>c\<in>set b. \<not> is_space c"
    and l: "CHR 0x0A \<notin> set l" "CHR 0x0D \<notin> set l" and k: "\<not> line_kept l"
  shows "parseCSV (a @ CHR 0x0A # l @ CHR 0x0A # b) = parseCSV (a @ CHR 0x0A # b)"
proof -
  let ?a = "dropWhile is_space a" and ?b = "rev (dropWhile is_space (rev b))"
  obtain P where P: "P \<noteq> []" "\<And>rest. split_lines (?a @ CHR 0x0A # rest) = P @ split_lines rest"
    using split_lines_LF[of ?a] by blast
  have "trim (a @ (CHR 0x0A # l @ [CHR 0x0A]) @ b) = ?a @ (CHR 0x0A # l @ [CHR 0x0A]) @ ?b"
    using a b by (rule trim_middle)
  then have 1: "split_lines (trim (a @ CHR 0x0A # l @ CHR 0x0A # b)) = P @ l # split_lines ?b"
    using P(2) l by (simp add: split_lines_plain)
  have "trim (a @ [CHR 0x0A] @ b) = ?a @ [CHR 0x0A] @ ?b"
    using a b by (rule trim_middle)
  then have 2: "split_lines (trim (a @ CHR 0x0A # b)) = P @ split_lines ?b"
    using P(2) by simp
  show ?thesis
    using P(1) k by (simp add: parseCSV_lines 1 2)
qed

lemma parse_blank_line:
  "parseCSV (a @ CHR 0x0A # CHR 0x0A # b) = parseCSV (a @ CHR 0x0A # b)"
proof (cases "\<forall>c\<in>set a. is_space c")
  case True
  then have "trim (a @ CHR 0x0A # CHR 0x0A # b) = trim ([CHR 0x0A, CHR 0x0A] @ b)"
    "trim (a @ CHR 0x0A # b) = trim ([CHR 0x0A] @ b)"
    by (simp_all add: trim_space_prefix)
  moreover have "trim ([CHR 0x0A, CHR 0x0A] @ b) = trim b" "trim ([CHR 0x0A] @ b) = trim b"
    by (rule trim_space_prefix, simp add: is_space_def)+
  ultimately show ?thesis by (simp add: parseCSV_def)
next
  case a: False
  show ?thesis
  proof (cases "\<forall>c\<in>set b. is_space c")
    case True
    then have "trim (a @ [CHR 0x0A, CHR 0x0A] @ b) = trim a" "trim (a @ [CHR 0x0A] @ b) = trim a"
      using trim_space_suffix[of "[CHR 0x0A, CHR 0x0A] @ b" a] trim_space_suffix[of "[CHR 0x0A] @ b" a]
      by (simp_all add: is_space_def)
    then show ?thesis by (simp add: parseCSV_def)
  next
    case False
    have "\<not> line_kept []" by (simp add: line_kept_def)
    with a False show ?thesis
      using parse_insert_line[of a b "[]"] by simp
  qed
qed


text \<open>
  Claim C6. The parser is a total function of the text and yields exactly one entry for each
  line after the header that is non-empty and has at least five fields, in order; so a
  line with fewer than five fields (three, say) yields no entry, wherever it stands among
  the lines, and an empty line yields none. On texts: a line with fewer than five fields
  put between the header part and the rest of a text does not change the result, and a
  blank line inserted at a line break never changes the result.
\<close>

theorem C6_short_and_blank_lines_dropped:
  "parseCSV text = map line_entry (filter line_kept (tl (split_lines (trim text))))
   \<and> (length (split_fields l) < 5 \<longrightarrow>
        \<not> line_kept l \<and> parse_loop (xs @ l # ys) ws = parse_loop (xs @ ys) ws)
   \<and> parse_loop (xs @ [] # ys) ws = parse_loop (xs @ ys) ws
   \<and> ((\<exists>c\<in>set a. \<not> is_space c) \<and> (\<exists>c\<in>set b. \<not> is_space c)
        \<and> CHR 0x0A \<notin> set l \<and> CHR 0x0D \<notin> set l \<and> length (split_fields l) < 5 \<longrightarrow>
        parseCSV (a @ CHR 0x0A # l @ CHR 0x0A # b) = parseCSV (a @ CHR 0x0A # b))
   \<and> parseCSV (a @ CHR 0x0A # CHR 0x0A # b) = parseCSV (a @ CHR 0x0A # b)"
proof (intro conjI impI)
  show "parseCSV text = map line_entry (filter line_kept (tl (split_lines (trim text))))"
    by (rule parseCSV_lines)
next
  assume "length (split_fields l) < 5"
  then show "\<not> line_kept l" by (simp add: line_kept_def)
next
  assume "length (split_fields l) < 5"
  then show "parse_loop (xs @ l # ys) ws = parse_loop (xs @ ys) ws"
    by (simp add: parse_loop_acc line_kept_def)
next
  show "parse_loop (xs @ [] # ys) ws = parse_loop (xs @ ys) ws"
    by (simp add: parse_loop_acc line_kept_def)
next
  assume "(\<exists>c\<in>set a. \<not> is_space c) \<and> (\<exists>c\<in>set b. \<not> is_space c)
        \<and> CHR 0x0A \<notin> set l \<and> CHR 0x0D \<notin> set l \<and> length (split_fields l) < 5"
  then show "parseCSV (a @ CHR 0x0A # l @ CHR 0x0A # b) = parseCSV (a @ CHR 0x0A # b)"
    by (intro parse_insert_line) (simp_all add: line_kept_def)
next
  show "parseCSV (a @ CHR 0x0A # CHR 0x0A # b) = parseCSV (a @ CHR 0x0A # b)"
    by (rule parse_blank_line)
qed

theorem C6_witness:
  "length (split_fields ''x,y,z'') < 5
   \<and> (\<exists>c\<in>set ''w,m,s,a,e''. \<not> is_space c)
   \<and> (\<exists>c\<in>set ''cat,feline,kitty,dog,A cat.''. \<not> is_space c)
   \<and> CHR 0x0A \<notin> set ''x,y,z'' \<and> CHR 0x0D \<notin> set ''x,y,z''
   \<and> parse_loop ([''p,q,r,s,t''] @ ''x,y,z'' # [''cat,feline,kitty,dog,A cat.'']) []
       = parse_loop ([''p,q,r,s,t''] @ [''cat,feline,kitty,dog,A cat.'']) []
   \<and> parseCSV (''w,m,s,a,e'' @ CHR 0x0A # ''x,y,z'' @ CHR 0x0A # ''cat,feline,kitty,dog,A cat.'')
       = parseCSV (''w,m,s,a,e'' @ CHR 0x0A # ''cat,feline,kitty,dog,A cat.'')
   \<and> parseCSV (''w,m,s,a,e'' @ CHR 0x0A # CHR 0x0A # ''cat,feline,kitty,dog,A cat.'')
       = [\<lparr>word = ''cat'', meaning = ''feline'', synonyms = [''kitty''],
            antonyms = [''dog''], example = ''A cat.''\<rparr>]"
  using C6_short_and_blank_lines_dropped
    [of "[]" "''x,y,z''" "[''p,q,r,s,t'']" "[''cat,feline,kitty,dog,A cat.'']" "[]"
        "''w,m,s,a,e''" "''cat,feline,kitty,dog,A cat.''"]
  by (simp add: is_space_def parseCSV_def trim_def parse_list_def)

text \<open>
  Claim C9. A line with more than five fields yields the entry of its first five fields:
  the example is the trimmed fifth field alone. Appending a comma and any further text
  without a double quote to a line of at least five fields gives a line with more than
  five fields and the same entry; nothing of the appended text is kept, and no error
  arises.
\<close>

theorem C9_extra_fields_discarded:
  "(5 < length (split_fields l) \<longrightarrow>
      parse_loop (l # rest) ws =
        parse_loop rest
          (ws @ [\<lparr>word = trim (split_fields l ! 0), meaning = trim (split_fields l ! 1),
                   synonyms = parse_list (split_fields l ! 2),
                   antonyms = parse_list (split_fields l ! 3),
                   example = trim (split_fields l ! 4)\<rparr>]))
   \<and> (5 \<le> length (split_fields l) \<and> CHR 0x22 \<notin> set x \<longrightarrow>
        5 < length (split_fields (l @ CHR '','' # x))
        \<and> parse_loop ((l @ CHR '','' # x) # rest) ws = parse_loop (l # rest) ws)"
proof (intro conjI impI)
  assume "5 < length (split_fields l)"
  moreover from this have "l \<noteq> []" by auto
  ultimately show "parse_loop (l # rest) ws =
        parse_loop rest
          (ws @ [\<lparr>word = trim (split_fields l ! 0), meaning = trim (split_fields l ! 1),
                   synonyms = parse_list (split_fields l ! 2),
                   antonyms = parse_list (split_fields l ! 3),
                   example = trim (split_fields l ! 4)\<rparr>])"
    by (simp add: Let_def)
next
  assume h: "5 \<le> length (split_fields l) \<and> CHR 0x22 \<notin> set x"
  then have app: "split_fields (l @ CHR '','' # x) = split_fields l @ split_fields x"
    by (simp add: split_fields_append_comma)
  from h app show "5 < length (split_fields (l @ CHR '','' # x))"
    using split_fields_nonempty[of x] by (cases "split_fields x") simp_all
  have nth: "(split_fields l @ split_fields x) ! i = split_fields l ! i" if "i < 5" for i
    using h that by (simp add: nth_append)
  from h have "l \<noteq> []" by auto
  with h show "parse_loop ((l @ CHR '','' # x) # rest) ws = parse_loop (l # rest) ws"
    by (simp add: Let_def app nth)
qed

theorem C9_witness:
  "5 \<le> length (split_fields ''cat,feline,kitty,dog,A cat'') \<and> CHR 0x22 \<notin> set '' which sat, once.''
   \<and> 5 < length (split_fields ''cat,feline,kitty,dog,A cat, which sat, once.'')
   \<and> parse_loop [''cat,feline,kitty,dog,A cat, which sat, once.''] []
       = [\<lparr>word = ''cat'', meaning = ''feline'', synonyms = [''kitty''],
            antonyms = [''dog''], example = ''A cat''\<rparr>]"
  using C9_extra_fields_discarded
    [of "''cat,feline,kitty,dog,A cat''" "[]" "[]" "'' which sat, once.''"]
  by (simp add: trim_def is_space_def parse_list_def)

text \<open>Trimming, the splitting of a list field, and the parse of a single row.\<close>

lemma trim_trim_end: "trim s = trim_end (dropWhile is_space s)"
  by (simp add: trim_def trim_end_def)

lemma set_trim_end: "set (trim_end s) \<subseteq> set s"
proof -
  have "set (dropWhile is_space (rev s)) \<subseteq> set (rev s)"
    by (rule set_dropWhileD[THEN subsetI]) 
  then show ?thesis by (simp add: trim_end_def)
qed

lemma trim_end_append:
  assumes "p \<noteq> []" "\<not> is_space (last p)"
  shows "trim_end (p @ f) = p @ trim_end f"
proof (cases "\<forall>c\<in>set f. is_space c")
  case True
  then have "dropWhile is_space (rev f @ rev p) = dropWhile is_space (rev p)"
    by (intro dropWhile_all) simp
  moreover have "dropWhile is_space (rev p) = rev p"
    using assms by (cases "rev p") (simp_all add: last_rev[symmetric] hd_rev)
  moreover have "dropWhile is_space (rev f) = []"
    using True by simp
  ultimately show ?thesis by (simp add: trim_end_def)
next
  case False
  then have "dropWhile is_space (rev f @ rev p) = dropWhile is_space (rev f) @ rev p"
    by (intro dropWhile_some) simp
  then show ?thesis by (simp add: trim_end_def)
qed

lemma trim_of_trim_end: "trim (trim_end s) = trim s"
proof -
  have "rev s = takeWhile is_space (rev s) @ dropWhile is_space (rev s)"
    by simp
  then have "s = trim_end s @ rev (takeWhile is_space (rev s))"
    unfolding trim_end_def by (metis rev_append rev_rev_ident)
  moreover have "\<forall>c\<in>set (rev (takeWhile is_space (rev s))). is_space c"
    by (auto dest: set_takeWhileD)
  ultimately show ?thesis
    by (metis trim_space_suffix)
qed

lemma dropWhile_hd: "xs \<noteq> [] \<Longrightarrow> \<not> P (hd xs) \<Longrightarrow> dropWhile P xs = xs"
  by (cases xs) simp_all

lemma trim_clean:
  assumes "s = [] \<or> (\<not> is_space (hd s) \<and> \<not> is_space (last s))"
  shows "trim s = s"
proof (cases s)
  case Nil
  then show ?thesis by (simp add: trim_def)
next
  case (Cons c cs)
  with assms have h: "\<not> is_space (hd s)" "\<not> is_space (last s)" by simp_all
  then have 1: "dropWhile is_space s = s"
    using Cons by simp
  have "rev s \<noteq> []" "hd (rev s) = last s" using Cons by (simp_all add: hd_rev)
  with h(2) have 2: "dropWhile is_space (rev s) = rev s"
    by (intro dropWhile_hd) simp_all
  show ?thesis by (simp add: trim_def 1 2)
qed

lemma trim_surrounded:
  assumes "\<forall>c\<in>set a. is_space c" "\<forall>c\<in>set b. is_space c"
    "s = [] \<or> (\<not> is_space (hd s) \<and> \<not> is_space (last s))"
  shows "trim (a @ s @ b) = s"
proof -
  have "trim (a @ s @ b) = trim (s @ b)"
    using assms(1) by (rule trim_space_prefix)
  also have "\<dots> = trim s"
    using assms(2) by (rule trim_space_suffix)
  also have "\<dots> = s"
    using assms(3) by (rule trim_clean)
  finally show ?thesis .
qed

lemma split_list_nonempty: "split_list s \<noteq> []"
  by (induction s) (simp_all add: cons_char_nonempty)

lemma split_list_append:
  "c = CHR '';'' \<or> c = CHR ''|'' \<Longrightarrow> split_list (x @ c # y) = split_list x @ split_list y"
  by (induction x) (simp_all add: cons_char_append split_list_nonempty)

lemma split_list_single:
  "CHR '';'' \<notin> set p \<Longrightarrow> CHR ''|'' \<notin> set p \<Longrightarrow> split_list p = [p]"
  by (induction p) auto

lemma parse_list_append:
  "c = CHR '';'' \<or> c = CHR ''|'' \<Longrightarrow> parse_list (x @ c # y) = parse_list x @ parse_list y"
  by (simp add: parse_list_def split_list_append)

lemma parse_list_single:
  "CHR '';'' \<notin> set p \<Longrightarrow> CHR ''|'' \<notin> set p \<Longrightarrow>
   parse_list p = (if trim p = [] then [] else [trim p])"
  by (simp add: parse_list_def split_list_single)

lemma split_fields_single: "CHR '','' \<notin> set f \<Longrightarrow> split_fields f = [f]"
  by (induction f) auto

lemma split_lines_single:
  "CHR 0x0A \<notin> set l \<Longrightarrow> CHR 0x0D \<notin> set l \<Longrightarrow> split_lines l = [l]"
  by (induction l) auto

lemma split_fields_five:
  assumes "\<forall>f\<in>set [w, m, s, a, e]. CHR '','' \<notin> set f \<and> CHR 0x22 \<notin> set f"
  shows "split_fields (w @ CHR '','' # m @ CHR '','' # s @ CHR '','' # a @ CHR '','' # e)
         = [w, m, s, a, e]"
  using assms by (simp add: split_fields_append_comma split_fields_single)

lemma parse_row:
  assumes h: "\<exists>c\<in>set h. \<not> is_space c" "CHR 0x0A \<notin> set h" "CHR 0x0D \<notin> set h"
    and f: "\<forall>f\<in>set [w, m, s, a, e]. CHR '','' \<notin> set f \<and> CHR 0x22 \<notin> set f
              \<and> CHR 0x0A \<notin> set f \<and> CHR 0x0D \<notin> set f"
    and t: "\<forall>c\<in>set t. is_space c"
  shows "parseCSV (h @ CHR 0x0A # w @ CHR '','' # m @ CHR '','' # s @ CHR '','' # a @ CHR '','' # e @ t)
         = [\<lparr>word = trim w, meaning = trim m, synonyms = parse_list s,
              antonyms = parse_list a, example = trim e\<rparr>]"
proof -
  define p where "p = w @ CHR '','' # m @ CHR '','' # s @ CHR '','' # a @ [CHR '','']"
  define e' where "e' = trim_end e"
  define R where "R = w @ CHR '','' # m @ CHR '','' # s @ CHR '','' # a @ CHR '','' # e'"
  define h' where "h' = dropWhile is_space h"
  have p: "p \<noteq> []" "\<not> is_space (last p)"
    by (simp_all add: p_def is_space_def)
  have e': "CHR '','' \<notin> set e'" "CHR 0x22 \<notin> set e'" "CHR 0x0A \<notin> set e'" "CHR 0x0D \<notin> set e'"
    using f set_trim_end[of e] unfolding e'_def by auto
  have R: "R = p @ e'" by (simp add: R_def p_def)
  have "\<exists>c\<in>set (p @ e). \<not> is_space c"
    by (rule bexI[of _ "CHR '',''"]) (simp_all add: p_def is_space_def)
  with h(1) have "trim (h @ [CHR 0x0A] @ (p @ e)) = h' @ [CHR 0x0A] @ trim_end (p @ e)"
    unfolding h'_def trim_end_def by (rule trim_middle)
  also have "trim_end (p @ e) = R"
    using p by (simp add: trim_end_append R e'_def)
  finally have 1: "trim (h @ CHR 0x0A # p @ e) = h' @ CHR 0x0A # R"
    by simp
  have "trim ((h @ CHR 0x0A # p @ e) @ t) = trim (h @ CHR 0x0A # p @ e)"
    using t by (rule trim_space_suffix)
  with 1 have 2: "trim (h @ CHR 0x0A # p @ e @ t) = h' @ CHR 0x0A # R"
    by simp
  have h': "CHR 0x0A \<notin> set h'" "CHR 0x0D \<notin> set h'"
    using h(2,3) set_dropWhileD[of _ is_space h] unfolding h'_def by auto
  have Rl: "CHR 0x0A \<notin> set R" "CHR 0x0D \<notin> set R"
    using f e' by (simp_all add: R_def)
  have 3: "split_lines (h' @ CHR 0x0A # R) = [h', R]"
    using h' Rl by (simp add: split_lines_plain split_lines_single)
  have 4: "split_fields R = [w, m, s, a, e']"
    unfolding R_def using f e' by (intro split_fields_five) simp
  have "R \<noteq> []" by (simp add: R_def)
  then have "parse_loop [R] [] = [\<lparr>word = trim w, meaning = trim m, synonyms = parse_list s,
              antonyms = parse_list a, example = trim e\<rparr>]"
    by (simp add: 4 e'_def trim_of_trim_end)
  moreover have "h @ CHR 0x0A # w @ CHR '','' # m @ CHR '','' # s @ CHR '','' # a @ CHR '','' # e @ t
      = h @ CHR 0x0A # p @ e @ t"
    by (simp add: p_def)
  ultimately show ?thesis
    by (simp only: parseCSV_def 2 3) simp
qed

text \<open>
  Claim C5. The text of a header line and the line
  \<^verbatim>\<open>cat,feline,kitty;tomcat,dog,A cat sat.\<close>, each ended by a line feed, parses to exactly
  one entry: word \<^verbatim>\<open>cat\<close>, meaning \<^verbatim>\<open>feline\<close>, synonyms \<^verbatim>\<open>kitty\<close> and \<^verbatim>\<open>tomcat\<close> in
  this order, antonyms \<^verbatim>\<open>dog\<close>, example \<^verbatim>\<open>A cat sat.\<close> The same entry, with one more
  synonym, comes from a text with another header, white space around every field and
  piece, both separators and empty pieces. In general: whatever the header line holds
  (a single line that is not blank), a line of five fields free of commas, double quotes
  and line breaks, followed by any white space, parses to the one entry whose word,
  meaning and example are the trimmed fields and whose synonyms and antonyms are the
  parsed lists of the third and fourth field. The parsed list of a field puts the lists of
  the parts before and after a \<^verbatim>\<open>;\<close> or \<^verbatim>\<open>|\<close> one after the other, and a part without
  separator gives its trimmed text, or nothing when that is empty. Trimming removes the
  white space around a text that does not begin or end with white space.
\<close>

theorem C5_parse_example:
  "parseCSV ''word,meaning,synonyms,antonyms,example\<newline>cat,feline,kitty;tomcat,dog,A cat sat.\<newline>''
     = [\<lparr>word = ''cat'', meaning = ''feline'', synonyms = [''kitty'', ''tomcat''],
          antonyms = [''dog''], example = ''A cat sat.''\<rparr>]
   \<and> parseCSV ''any header at all\<newline>  cat , feline ,kitty; tomcat |;puss| , dog|,  A cat sat.  \<newline>''
     = [\<lparr>word = ''cat'', meaning = ''feline'', synonyms = [''kitty'', ''tomcat'', ''puss''],
          antonyms = [''dog''], example = ''A cat sat.''\<rparr>]
   \<and> ((\<exists>ch\<in>set h. \<not> is_space ch) \<and> CHR 0x0A \<notin> set h \<and> CHR 0x0D \<notin> set h
        \<and> (\<forall>f\<in>set [w, m, s, a, e]. CHR '','' \<notin> set f \<and> CHR 0x22 \<notin> set f
                \<and> CHR 0x0A \<notin> set f \<and> CHR 0x0D \<notin> set f)
        \<and> (\<forall>ch\<in>set t. is_space ch) \<longrightarrow>
        parseCSV (h @ CHR 0x0A # w @ CHR '','' # m @ CHR '','' # s @ CHR '','' # a @ CHR '','' # e @ t)
          = [\<lparr>word = trim w, meaning = trim m, synonyms = parse_list s,
               antonyms = parse_list a, example = trim e\<rparr>])
   \<and> (c = CHR '';'' \<or> c = CHR ''|'' \<longrightarrow> parse_list (x @ c # y) = parse_list x @ parse_list y)
   \<and> (CHR '';'' \<notin> set q \<and> CHR ''|'' \<notin> set q \<longrightarrow>
        parse_list q = (if trim q = [] then [] else [trim q]))
   \<and> ((\<forall>ch\<in>set l. is_space ch) \<and> (\<forall>ch\<in>set r. is_space ch)
        \<and> (v = [] \<or> (\<not> is_space (hd v) \<and> \<not> is_space (last v))) \<longrightarrow>
        trim (l @ v @ r) = v)"
proof (intro conjI impI)
  show "parseCSV ''word,meaning,synonyms,antonyms,example\<newline>cat,feline,kitty;tomcat,dog,A cat sat.\<newline>''
     = [\<lparr>word = ''cat'', meaning = ''feline'', synonyms = [''kitty'', ''tomcat''],
          antonyms = [''dog''], example = ''A cat sat.''\<rparr>]"
    by (simp add: parseCSV_def trim_def is_space_def parse_list_def)
  show "parseCSV ''any header at all\<newline>  cat , feline ,kitty; tomcat |;puss| , dog|,  A cat sat.  \<newline>''
     = [\<lparr>word = ''cat'', meaning = ''feline'', synonyms = [''kitty'', ''tomcat'', ''puss''],
          antonyms = [''dog''], example = ''A cat sat.''\<rparr>]"
    by (simp add: parseCSV_def trim_def is_space_def parse_list_def)
  show "parseCSV (h @ CHR 0x0A # w @ CHR '','' # m @ CHR '','' # s @ CHR '','' # a @ CHR '','' # e @ t)
          = [\<lparr>word = trim w, meaning = trim m, synonyms = parse_list s,
               antonyms = parse_list a, example = trim e\<rparr>]"
    if "(\<exists>ch\<in>set h. \<not> is_space ch) \<and> CHR 0x0A \<notin> set h \<and> CHR 0x0D \<notin> set h
        \<and> (\<forall>f\<in>set [w, m, s, a, e]. CHR '','' \<notin> set f \<and> CHR 0x22 \<notin> set f
                \<and> CHR 0x0A \<notin> set f \<and> CHR 0x0D \<notin> set f)
        \<and> (\<forall>ch\<in>set t. is_space ch)"
    using that by (intro parse_row) blast+
  show "parse_list (x @ c # y) = parse_list x @ parse_list y" if "c = CHR '';'' \<or> c = CHR ''|''"
    using that by (rule parse_list_append)
  show "parse_list q = (if trim q = [] then [] else [trim q])"
    if "CHR '';'' \<notin> set q \<and> CHR ''|'' \<notin> set q"
    using that by (simp add: parse_list_single)
  show "trim (l @ v @ r) = v"
    if "(\<forall>ch\<in>set l. is_space ch) \<and> (\<forall>ch\<in>set r. is_space ch)
        \<and> (v = [] \<or> (\<not> is_space (hd v) \<and> \<not> is_space (last v)))"
    using that by (intro trim_surrounded) blast+
qed

theorem C5_witness:
  "list_ex (\<lambda>ch. \<not> is_space ch) ''# my words''
   \<and> CHR 0x0A \<notin> set ''# my words'' \<and> CHR 0x0D \<notin> set ''# my words''
   \<and> list_all (\<lambda>f. CHR '','' \<notin> set f \<and> CHR 0x22 \<notin> set f \<and> CHR 0x0A \<notin> set f
                     \<and> CHR 0x0D \<notin> set f)
        ['' cat'', ''feline  '', ''kitty | tomcat;'', [], ''A cat sat. '']
   \<and> list_all is_space '' \<newline>\<newline>''
   \<and> parseCSV (''# my words'' @ CHR 0x0A # '' cat'' @ CHR '','' # ''feline  '' @ CHR '','' #
                ''kitty | tomcat;'' @ CHR '','' # [] @ CHR '','' # ''A cat sat. '' @ '' \<newline>\<newline>'')
       = [\<lparr>word = ''cat'', meaning = ''feline'', synonyms = [''kitty'', ''tomcat''],
            antonyms = [], example = ''A cat sat.''\<rparr>]
   \<and> parse_list (''kitty '' @ CHR ''|'' # '' tomcat;'') = [''kitty'', ''tomcat'']
   \<and> CHR '';'' \<notin> set '' kitty '' \<and> CHR ''|'' \<notin> set '' kitty ''
   \<and> parse_list '' kitty '' = [''kitty'']
   \<and> list_all is_space ''  '' \<and> list_all is_space '' \<newline>''
   \<and> \<not> is_space (hd ''A cat sat.'') \<and> \<not> is_space (last ''A cat sat.'')
   \<and> trim (''  '' @ ''A cat sat.'' @ '' \<newline>'') = ''A cat sat.''"
  using C5_parse_example
    [where h = "''# my words''" and w = "'' cat''" and m = "''feline  ''"
       and s = "''kitty | tomcat;''" and a = "[]" and e = "''A cat sat. ''"
       and t = "'' \<newline>\<newline>''" and c = "CHR ''|''" and x = "''kitty ''" and y = "'' tomcat;''"
       and q = "'' kitty ''" and l = "''  ''" and v = "''A cat sat.''" and r = "'' \<newline>''"]
  by (simp add: is_space_def trim_def parse_list_def)

section \<open>Properties of the distractor generator\<close>

declare pad_distractors.simps [simp del]

lemma length_swap: "length (swap i j xs) = length xs"
  by (simp add: swap_def)

lemma mset_swap_list: "i < length xs \<Longrightarrow> j < length xs \<Longrightarrow> mset (swap i j xs) = mset xs"
  unfolding swap_def by (rule mset_swap)

lemma mset_shuffle_loop: "i < length xs \<Longrightarrow> mset (fst (shuffle_loop rnd k i xs)) = mset xs"
proof (induction i arbitrary: k xs)
  case 0
  show ?case by simp
next
  case (Suc i)
  have j: "rnd k mod (Suc i + 1) < length xs"
  proof -
    have "rnd k mod (Suc i + 1) < Suc i + 1"
      by (rule mod_less_divisor) simp
    with Suc.prems show ?thesis by linarith
  qed
  have "mset (fst (shuffle_loop rnd (Suc k) i (swap (Suc i) (rnd k mod (Suc i + 1)) xs)))
        = mset (swap (Suc i) (rnd k mod (Suc i + 1)) xs)"
    using Suc.prems by (intro Suc.IH) (simp add: length_swap)
  also have "\<dots> = mset xs"
    using Suc.prems j by (rule mset_swap_list)
  finally show ?case by simp
qed

lemma mset_shuffleArray: "mset (fst (shuffleArray rnd k xs)) = mset xs"
  by (cases xs) (simp_all add: shuffleArray_def mset_shuffle_loop)

lemma set_shuffleArray: "set (fst (shuffleArray rnd k xs)) = set xs"
  by (metis mset_shuffleArray set_mset_mset)

lemma length_shuffleArray: "length (fst (shuffleArray rnd k xs)) = length xs"
  by (metis mset_shuffleArray size_mset)

lemma set_foldl_set_add: "set (foldl set_add acc xs) = set acc \<union> set xs"
  by (induction xs arbitrary: acc) (auto simp: set_add_def)

lemma set_new_Set: "set (new_Set xs) = set xs"
  by (simp add: new_Set_def set_foldl_set_add)

lemma set_pick_distractors: "set (pick_distractors e cands acc) \<subseteq> set acc \<union> set cands"
  by (induction e cands acc rule: pick_distractors.induct) auto

lemma set_fallback_words:
  "d \<in> set (fallback_words e c ws acc) \<Longrightarrow> d \<in> set acc \<or> toLowerCase d \<noteq> toLowerCase c"
  by (induction e c ws acc rule: fallback_words.induct) (auto split: if_splits)

lemma pad_distractors_replicate: "pad_distractors ds = ds @ replicate (3 - length ds) []"
proof (induction ds rule: pad_distractors.induct)
  case (1 ds)
  show ?case
  proof (cases "length ds < 3")
    case True
    then have "3 - length ds = Suc (3 - length (ds @ [[]]))" by simp
    with True "1.IH" show ?thesis
      by (subst pad_distractors.simps) (simp add: replicate_app_Cons_same)
  next
    case False
    then show ?thesis by (subst pad_distractors.simps) simp
  qed
qed

lemma found_distractors_differ:
  "d \<in> set (found_distractors rnd k e p) \<Longrightarrow> toLowerCase d \<noteq> toLowerCase (correct_option e)"
proof -
  assume d: "d \<in> set (found_distractors rnd k e p)"
  let ?c = "correct_option e"
  let ?cs = "new_Set (filter (\<lambda>c. c \<noteq> [] \<and> toLowerCase c \<noteq> toLowerCase ?c) (collect_candidates e p []))"
  let ?picked = "pick_distractors e (fst (shuffleArray rnd k ?cs)) []"
  from d have "d \<in> set (fallback_words e ?c p ?picked)"
    by (simp add: found_distractors_def Let_def)
  then have "d \<in> set ?picked \<or> toLowerCase d \<noteq> toLowerCase ?c"
    by (rule set_fallback_words)
  moreover have "set ?picked \<subseteq> set ?cs"
    using set_pick_distractors[of e "fst (shuffleArray rnd k ?cs)" "[]"]
    by (simp add: set_shuffleArray)
  ultimately show ?thesis
    by (auto simp: set_new_Set)
qed

lemma generateOptions_found:
  "mset (fst (generateOptions rnd k e p))
   = mset (correct_option e # take 3 (found_distractors rnd k e p
                @ replicate (3 - length (found_distractors rnd k e p)) []))"
proof -
  have "mset (fst (generateOptions rnd k e p))
     = mset (correct_option e # take 3 (pad_distractors (found_distractors rnd k e p)))"
    by (simp add: generateOptions_def found_distractors_def Let_def split_beta mset_shuffleArray)
  then show ?thesis
    by (simp only: pad_distractors_replicate)
qed

lemma filter_length_mset:
  "mset xs = mset ys \<Longrightarrow> length (filter P xs) = length (filter P ys)"
  by (metis mset_filter size_mset)

lemma count_matches:
  "match_count (correct_option e) (fst (generateOptions rnd k e p))
   = 1 + (if correct_option e = [] then 3 - length (found_distractors rnd k e p) else 0)"
proof -
  let ?c = "correct_option e" and ?f = "found_distractors rnd k e p"
  let ?P = "\<lambda>opt. toLowerCase opt = toLowerCase ?c"
  have none: "filter ?P ?f = []"
    by (simp add: filter_empty_conv found_distractors_differ)
  have pad: "filter ?P (replicate n []) = (if ?c = [] then replicate n [] else [])" for n
    by (auto simp: toLowerCase_def)
  have "length (filter ?P (fst (generateOptions rnd k e p)))
        = length (filter ?P (?c # take 3 (?f @ replicate (3 - length ?f) [])))"
    by (rule filter_length_mset) (rule generateOptions_found)
  also have "\<dots> = 1 + length (filter ?P (take 3 ?f)
                        @ filter ?P (take (3 - length ?f) (replicate (3 - length ?f) [])))"
    by simp
  also have "filter ?P (take 3 ?f) = []"
    using none by (auto simp: filter_empty_conv dest: in_set_takeD)
  finally show ?thesis
    by (simp add: pad match_count_def)
qed

lemma length_generateOptions: "length (fst (generateOptions rnd k e p)) = 4"
proof -
  have "length (fst (generateOptions rnd k e p)) = size (mset (fst (generateOptions rnd k e p)))"
    by simp
  also have "\<dots> = 4"
    by (simp only: generateOptions_found) auto
  finally show ?thesis .
qed

lemma word_correct_option: "word e \<noteq> [] \<Longrightarrow> correct_option e \<noteq> []"
  by (simp add: correct_option_def js_or_def)

text \<open>
  Claim C2, as stated, fails for an entry whose correct answer is the empty string. The line
  \<^verbatim>\<open>,,,,\<close> has five fields, so the parser yields the entry with every field empty; in a
  pool of that entry alone the three distractors are the placeholders, and all four
  options match the correct answer.
\<close>

theorem C2_counterexample:
  "parseCSV ''word,meaning,synonyms,antonyms,example\<newline>,,,,''
     = [\<lparr>word = [], meaning = [], synonyms = [], antonyms = [], example = []\<rparr>]
   \<and> fst (generateOptions (const_rnd 0) 0
            \<lparr>word = [], meaning = [], synonyms = [], antonyms = [], example = []\<rparr>
            [\<lparr>word = [], meaning = [], synonyms = [], antonyms = [], example = []\<rparr>])
       = [[], [], [], []]
   \<and> match_count
        (correct_option \<lparr>word = [], meaning = [], synonyms = [], antonyms = [], example = []\<rparr>)
        (fst (generateOptions (const_rnd 0) 0
            \<lparr>word = [], meaning = [], synonyms = [], antonyms = [], example = []\<rparr>
            [\<lparr>word = [], meaning = [], synonyms = [], antonyms = [], example = []\<rparr>]))
       \<noteq> 1"
proof -
  have opts: "fst (generateOptions (const_rnd 0) 0
            \<lparr>word = [], meaning = [], synonyms = [], antonyms = [], example = []\<rparr>
            [\<lparr>word = [], meaning = [], synonyms = [], antonyms = [], example = []\<rparr>])
       = [[], [], [], []]"
    by code_simp
  have "parseCSV ''word,meaning,synonyms,antonyms,example\<newline>,,,,''
     = [\<lparr>word = [], meaning = [], synonyms = [], antonyms = [], example = []\<rparr>]"
    by (simp add: parseCSV_def trim_def is_space_def parse_list_def)
  then show ?thesis
    by (simp add: opts match_count_def toLowerCase_def)
qed

text \<open>
  Claim C2, amended. For every entry, pool and random source, \<open>generateOptions\<close> returns
  exactly 4 options. The number of options that match the correct answer, case ignored, is
  one plus the number of empty placeholders when the correct answer is empty, and one
  otherwise: so the correct answer occurs exactly once whenever it is not the empty
  string, which holds in particular whenever the word of the entry is not empty.
\<close>

theorem C2_generateOptions_correct_once:
  "length (fst (generateOptions rnd k e p)) = 4
   \<and> match_count (correct_option e) (fst (generateOptions rnd k e p))
       = 1 + (if correct_option e = [] then 3 - length (found_distractors rnd k e p) else 0)
   \<and> (correct_option e \<noteq> [] \<longrightarrow>
        match_count (correct_option e) (fst (generateOptions rnd k e p)) = 1)
   \<and> (word e \<noteq> [] \<longrightarrow> correct_option e \<noteq> [])"
  by (simp add: length_generateOptions count_matches word_correct_option)

theorem C2_witness:
  "word \<lparr>word = ''big'', meaning = ''of great size'', synonyms = [''large'', ''huge''],
          antonyms = [''small''], example = ''A big dog.''\<rparr> \<noteq> []
   \<and> correct_option \<lparr>word = ''big'', meaning = ''of great size'', synonyms = [''large'', ''huge''],
          antonyms = [''small''], example = ''A big dog.''\<rparr> = ''large''
   \<and> match_count ''large''
        (fst (generateOptions (const_rnd 0) 0
           \<lparr>word = ''big'', meaning = ''of great size'', synonyms = [''large'', ''huge''],
              antonyms = [''small''], example = ''A big dog.''\<rparr>
           [\<lparr>word = ''cat'', meaning = ''feline'', synonyms = [], antonyms = [''dog''],
               example = ''A cat sat.''\<rparr>,
            \<lparr>word = ''big'', meaning = ''of great size'', synonyms = [''large'', ''huge''],
               antonyms = [''small''], example = ''A big dog.''\<rparr>])) = 1"
  using C2_generateOptions_correct_once
    [of "const_rnd 0" 0
        "\<lparr>word = ''big'', meaning = ''of great size'', synonyms = [''large'', ''huge''],
           antonyms = [''small''], example = ''A big dog.''\<rparr>"
        "[\<lparr>word = ''cat'', meaning = ''feline'', synonyms = [], antonyms = [''dog''],
             example = ''A cat sat.''\<rparr>,
          \<lparr>word = ''big'', meaning = ''of great size'', synonyms = [''large'', ''huge''],
             antonyms = [''small''], example = ''A big dog.''\<rparr>]"]
  by (simp add: correct_option_def js_or_def first_or_empty_def)

section \<open>Properties of the session engine\<close>

lemma length_make_cards: "length (fst (make_cards rnd k p es)) = length es"
  by (induction es arbitrary: k) (simp_all add: split_beta Let_def)

lemma results_handleOptionClick:
  "results (handleOptionClick rnd p sel crd s)
   = results s @ [\<lparr>res_word = word (entry crd),
                     res_correct = (toLowerCase sel = toLowerCase (correct crd))\<rparr>]"
  by (simp add: handleOptionClick_def Let_def split_beta)

lemma queue_handleOptionClick:
  "queue (handleOptionClick rnd p sel crd s)
   = (if toLowerCase sel = toLowerCase (correct crd) then queue s
      else queue s @ [\<lparr>entry = entry crd,
                        options = fst (generateOptions rnd (draws s) (entry crd) p),
                        correct = correct crd\<rparr>])"
  by (simp add: handleOptionClick_def Let_def split_beta)

lemma rest_handleOptionClick:
  "finished (handleOptionClick rnd p sel crd s) = finished s"
  "currentCard (handleOptionClick rnd p sel crd s) = currentCard s"
  by (simp_all add: handleOptionClick_def Let_def split_beta)

lemma finished_showCard: "finished (showCard s) \<longleftrightarrow> finished s \<or> queue s = []"
  by (simp add: showCard_def split: list.splits)

lemma session_inv_init:
  assumes "initFlashcards rnd p = Some s0"
  shows "session_inv (min 10 (length p)) s0"
proof -
  from assms have p: "p \<noteq> []"
    by (auto simp: initFlashcards_def split: if_splits)
  define es where "es = take (min 10 (length (fst (shuffleArray rnd 0 p)))) (fst (shuffleArray rnd 0 p))"
  define cards where "cards = fst (make_cards rnd (snd (shuffleArray rnd 0 p)) p es)"
  have len: "length cards = min 10 (length p)"
    by (simp add: cards_def es_def length_make_cards length_shuffleArray)
  moreover have "0 < min 10 (length p)"
    using p by simp
  ultimately obtain c cs where cards: "cards = c # cs"
    by (cases cards) auto
  from assms p have "s0 = showCard \<lparr>queue = cards, results = [], currentCard = None,
      draws = snd (make_cards rnd (snd (shuffleArray rnd 0 p)) p es), finished = False\<rparr>"
    by (simp add: initFlashcards_def Let_def split_beta cards_def es_def)
  then show ?thesis
    using len by (simp add: cards showCard_def session_inv_def incorrect_count_def)
qed

lemma session_inv_turn:
  assumes "session_inv n s"
  shows "session_inv n (turn rnd p s pick)"
proof (cases "finished s")
  case True
  with assms show ?thesis by (simp add: turn_def)
next
  case False
  with assms obtain crd where crd: "currentCard s = Some crd"
    by (auto simp: session_inv_def)
  show ?thesis
  proof (cases "pick < length (options crd)")
    case ge: False
    with assms False crd show ?thesis by (simp add: turn_def)
  next
    case True
    let ?s1 = "handleOptionClick rnd p (options crd ! pick) crd s"
    have t: "turn rnd p s pick = showCard ?s1"
      using False crd True by (simp add: turn_def)
    show ?thesis
      using assms False
      unfolding t session_inv_def
      by (cases "queue s")
         (auto simp: showCard_def results_handleOptionClick queue_handleOptionClick
            rest_handleOptionClick incorrect_count_def split: list.splits)
  qed
qed

lemma session_inv_play: "session_inv n s \<Longrightarrow> session_inv n (play rnd p s picks)"
  unfolding play_def by (induction picks arbitrary: s) (simp_all add: session_inv_turn)


text \<open>
  Claim C3. Let a session start from a non-empty pool and run over any sequence of the
  user's picks. At every moment the answered, queued and displayed cards add up to the
  session size \<open>min 10 (length p)\<close> plus the number of incorrect answers; so when the
  session is complete, the results list has exactly that length. A submission appends one
  result; an incorrect one also puts one fresh card for the same entry, with new options,
  at the back of the queue, and a correct one leaves the queue alone. \<open>showCard\<close>
  finishes the session exactly when it finds the queue empty, and a finished session has
  an empty queue.
\<close>

theorem C3_session_results_length:
  assumes "initFlashcards rnd p = Some s0" and "s = play rnd p s0 picks"
  shows "(finished s \<longrightarrow>
            length (results s) = min 10 (length p) + incorrect_count (results s))
         \<and> length (results s) + length (queue s) + (if finished s then 0 else 1)
             = min 10 (length p) + incorrect_count (results s)
         \<and> (finished s \<longrightarrow> queue s = [])
         \<and> (finished (showCard s) \<longleftrightarrow> finished s \<or> queue s = [])
         \<and> results (handleOptionClick rnd p sel crd s)
             = results s @ [\<lparr>res_word = word (entry crd),
                               res_correct = (toLowerCase sel = toLowerCase (correct crd))\<rparr>]
         \<and> queue (handleOptionClick rnd p sel crd s)
             = (if toLowerCase sel = toLowerCase (correct crd) then queue s
                else queue s @ [\<lparr>entry = entry crd,
                                  options = fst (generateOptions rnd (draws s) (entry crd) p),
                                  correct = correct crd\<rparr>])"
proof -
  have "session_inv (min 10 (length p)) s"
    unfolding assms(2) using assms(1) by (intro session_inv_play session_inv_init)
  then show ?thesis
    by (auto simp: session_inv_def finished_showCard results_handleOptionClick
          queue_handleOptionClick)
qed

theorem C3_witness:
  "initFlashcards (const_rnd 0)
       [\<lparr>word = ''big'', meaning = ''of great size'', synonyms = [''large'', ''huge''],
            antonyms = [''small''], example = ''A big dog.''\<rparr>]
     = Some \<lparr>queue = [], results = [], currentCard = Some \<lparr>entry = \<lparr>word = ''big'', meaning = ''of great size'', synonyms = [''large'', ''huge''],
            antonyms = [''small''], example = ''A big dog.''\<rparr>,
           options = [[], [], [], ''large''], correct = ''large''\<rparr>,
          draws = 3, finished = False\<rparr>
   \<and> finished (play (const_rnd 0)
       [\<lparr>word = ''big'', meaning = ''of great size'', synonyms = [''large'', ''huge''],
            antonyms = [''small''], example = ''A big dog.''\<rparr>]
       \<lparr>queue = [], results = [], currentCard = Some \<lparr>entry = \<lparr>word = ''big'', meaning = ''of great size'', synonyms = [''large'', ''huge''],
            antonyms = [''small''], example = ''A big dog.''\<rparr>,
           options = [[], [], [], ''large''], correct = ''large''\<rparr>,
          draws = 3, finished = False\<rparr> [0, 3])
   \<and> incorrect_count (results (play (const_rnd 0)
       [\<lparr>word = ''big'', meaning = ''of great size'', synonyms = [''large'', ''huge''],
            antonyms = [''small''], example = ''A big dog.''\<rparr>]
       \<lparr>queue = [], results = [], currentCard = Some \<lparr>entry = \<lparr>word = ''big'', meaning = ''of great size'', synonyms = [''large'', ''huge''],
            antonyms = [''small''], example = ''A big dog.''\<rparr>,
           options = [[], [], [], ''large''], correct = ''large''\<rparr>,
          draws = 3, finished = False\<rparr> [0, 3])) = 1
   \<and> length (results (play (const_rnd 0)
       [\<lparr>word = ''big'', meaning = ''of great size'', synonyms = [''large'', ''huge''],
            antonyms = [''small''], example = ''A big dog.''\<rparr>]
       \<lparr>queue = [], results = [], currentCard = Some \<lparr>entry = \<lparr>word = ''big'', meaning = ''of great size'', synonyms = [''large'', ''huge''],
            antonyms = [''small''], example = ''A big dog.''\<rparr>,
           options = [[], [], [], ''large''], correct = ''large''\<rparr>,
          draws = 3, finished = False\<rparr> [0, 3])) = 2"
proof -
  have init: "initFlashcards (const_rnd 0)
       [\<lparr>word = ''big'', meaning = ''of great size'', synonyms = [''large'', ''huge''],
            antonyms = [''small''], example = ''A big dog.''\<rparr>]
     = Some \<lparr>queue = [], results = [], currentCard = Some \<lparr>entry = \<lparr>word = ''big'', meaning = ''of great size'', synonyms = [''large'', ''huge''],
            antonyms = [''small''], example = ''A big dog.''\<rparr>,
           options = [[], [], [], ''large''], correct = ''large''\<rparr>,
          draws = 3, finished = False\<rparr>"
    by code_simp
  have run: "play (const_rnd 0)
       [\<lparr>word = ''big'', meaning = ''of great size'', synonyms = [''large'', ''huge''],
            antonyms = [''small''], example = ''A big dog.''\<rparr>]
       \<lparr>queue = [], results = [], currentCard = Some \<lparr>entry = \<lparr>word = ''big'', meaning = ''of great size'', synonyms = [''large'', ''huge''],
            antonyms = [''small''], example = ''A big dog.''\<rparr>,
           options = [[], [], [], ''large''], correct = ''large''\<rparr>,
          draws = 3, finished = False\<rparr> [0, 3]
     = \<lparr>queue = [],
          results = [\<lparr>res_word = ''big'', res_correct = False\<rparr>,
                     \<lparr>res_word = ''big'', res_correct = True\<rparr>],
          currentCard = Some \<lparr>entry = \<lparr>word = ''big'', meaning = ''of great size'', synonyms = [''large'', ''huge''],
            antonyms = [''small''], example = ''A big dog.''\<rparr>,
           options = [[], [], [], ''large''], correct = ''large''\<rparr>,
          draws = 6, finished = True\<rparr>"
    by code_simp
  show ?thesis
    using C3_session_results_length [OF init refl, of "[0, 3]"] init
    by (simp add: run incorrect_count_def)
qed

text \<open>
  Claim C1 fails on the code. The card stores \<^verbatim>\<open>entry.synonyms[0] || entry.word\<close>, without
  the first word of the meaning that \<^verbatim>\<open>generateOptions\<close> falls back to. The line
  \<^verbatim>\<open>cat,feline,,dog,A cat sat.\<close> parses to an entry without synonyms: its correct option
  is \<^verbatim>\<open>feline\<close>, which is among the options, while the card stores \<^verbatim>\<open>cat\<close>, which is not.
  Picking \<^verbatim>\<open>feline\<close> is recorded as incorrect, and the card put back in the queue stores
  \<^verbatim>\<open>cat\<close> again.
\<close>

theorem C1_card_answer_differs:
  "parseCSV ''word,meaning,synonyms,antonyms,example\<newline>cat,feline,,dog,A cat sat.''
     = [\<lparr>word = ''cat'', meaning = ''feline'', synonyms = [], antonyms = [''dog''],
            example = ''A cat sat.''\<rparr>]
   \<and> correct_option \<lparr>word = ''cat'', meaning = ''feline'', synonyms = [], antonyms = [''dog''],
            example = ''A cat sat.''\<rparr> = ''feline''
   \<and> initFlashcards (const_rnd 0)
       [\<lparr>word = ''cat'', meaning = ''feline'', synonyms = [], antonyms = [''dog''],
            example = ''A cat sat.''\<rparr>]
     = Some \<lparr>queue = [], results = [], currentCard = Some \<lparr>entry = \<lparr>word = ''cat'', meaning = ''feline'', synonyms = [], antonyms = [''dog''],
            example = ''A cat sat.''\<rparr>,
           options = [[], [], [], ''feline''], correct = ''cat''\<rparr>,
          draws = 3, finished = False\<rparr>
   \<and> play (const_rnd 0)
       [\<lparr>word = ''cat'', meaning = ''feline'', synonyms = [], antonyms = [''dog''],
            example = ''A cat sat.''\<rparr>]
       \<lparr>queue = [], results = [], currentCard = Some \<lparr>entry = \<lparr>word = ''cat'', meaning = ''feline'', synonyms = [], antonyms = [''dog''],
            example = ''A cat sat.''\<rparr>,
           options = [[], [], [], ''feline''], correct = ''cat''\<rparr>,
          draws = 3, finished = False\<rparr> [3]
     = \<lparr>queue = [], results = [\<lparr>res_word = ''cat'', res_correct = False\<rparr>],
          currentCard = Some \<lparr>entry = \<lparr>word = ''cat'', meaning = ''feline'', synonyms = [], antonyms = [''dog''],
            example = ''A cat sat.''\<rparr>,
           options = [[], [], [], ''feline''], correct = ''cat''\<rparr>,
          draws = 6, finished = False\<rparr>"
proof -
  have "parseCSV ''word,meaning,synonyms,antonyms,example\<newline>cat,feline,,dog,A cat sat.''
     = [\<lparr>word = ''cat'', meaning = ''feline'', synonyms = [], antonyms = [''dog''],
            example = ''A cat sat.''\<rparr>]"
    by (simp add: parseCSV_def trim_def is_space_def parse_list_def)
  moreover have "correct_option \<lparr>word = ''cat'', meaning = ''feline'', synonyms = [], antonyms = [''dog''],
            example = ''A cat sat.''\<rparr> = ''feline''"
    by (simp add: correct_option_def js_or_def first_or_empty_def first_token_def)
  moreover have "initFlashcards (const_rnd 0)
       [\<lparr>word = ''cat'', meaning = ''feline'', synonyms = [], antonyms = [''dog''],
            example = ''A cat sat.''\<rparr>]
     = Some \<lparr>queue = [], results = [], currentCard = Some \<lparr>entry = \<lparr>word = ''cat'', meaning = ''feline'', synonyms = [], antonyms = [''dog''],
            example = ''A cat sat.''\<rparr>,
           options = [[], [], [], ''feline''], correct = ''cat''\<rparr>,
          draws = 3, finished = False\<rparr>"
    by code_simp
  moreover have "play (const_rnd 0)
       [\<lparr>word = ''cat'', meaning = ''feline'', synonyms = [], antonyms = [''dog''],
            example = ''A cat sat.''\<rparr>]
       \<lparr>queue = [], results = [], currentCard = Some \<lparr>entry = \<lparr>word = ''cat'', meaning = ''feline'', synonyms = [], antonyms = [''dog''],
            example = ''A cat sat.''\<rparr>,
           options = [[], [], [], ''feline''], correct = ''cat''\<rparr>,
          draws = 3, finished = False\<rparr> [3]
     = \<lparr>queue = [], results = [\<lparr>res_word = ''cat'', res_correct = False\<rparr>],
          currentCard = Some \<lparr>entry = \<lparr>word = ''cat'', meaning = ''feline'', synonyms = [], antonyms = [''dog''],
            example = ''A cat sat.''\<rparr>,
           options = [[], [], [], ''feline''], correct = ''cat''\<rparr>,
          draws = 6, finished = False\<rparr>"
    by code_simp
  ultimately show ?thesis
    by (intro conjI)
qed

section \<open>Properties of the accuracy computation\<close>

lemma pow2_pos: "0 < pow2 e"
  by (simp add: pow2_def)

lemma pow2_diff: "pow2 (e - int n) = pow2 e / 2 ^ n"
proof -
  have "pow2 e = 2 powi e" for e
    by (simp add: pow2_def power_int_def inverse_eq_divide power_one_over)
  then show ?thesis
    by (simp add: power_int_diff)
qed

lemma binade_lower:
  assumes "0 < x" shows "pow2 (binade x) \<le> x"
proof (cases "1 \<le> x")
  case True
  define n where "n = nat \<lfloor>x\<rfloor>"
  have n: "0 < n" "rat_of_nat n \<le> x"
    using True by (simp_all add: n_def)
  have "2 ^ (floorlog 2 n - 1) \<le> n"
    using floorlog_bounds[of n 2] n(1) by simp
  then have "rat_of_nat (2 ^ (floorlog 2 n - 1)) \<le> rat_of_nat n"
    by (simp only: of_nat_le_iff)
  with n(2) have "rat_of_nat (2 ^ (floorlog 2 n - 1)) \<le> x"
    by linarith
  then have le: "(2::rat) ^ (floorlog 2 n - 1) \<le> x"
    by simp
  have "0 < floorlog 2 n"
    using n(1) by (simp add: floorlog_def)
  then have "nat (int (floorlog 2 n) - 1) = floorlog 2 n - 1" "0 \<le> int (floorlog 2 n) - 1"
    by simp_all
  then show ?thesis
    using True le by (simp add: binade_def pow2_def n_def[symmetric])
next
  case False
  define m where "m = nat \<lceil>1 / x\<rceil>"
  define k where "k = floorlog 2 (m - 1)"
  from False assms have "1 < 1 / x" by simp
  then have m: "1 < m" "1 / x \<le> rat_of_nat m"
    unfolding m_def by (simp_all add: less_ceiling_iff of_nat_nat le_of_int_ceiling)
  have "m - 1 < 2 ^ k"
    using floorlog_bounds[of "m - 1" 2] m(1) by (simp add: k_def)
  then have "m \<le> 2 ^ k" by simp
  then have "rat_of_nat m \<le> rat_of_nat (2 ^ k)"
    by (simp only: of_nat_le_iff)
  with m(2) have "1 / x \<le> rat_of_nat (2 ^ k)" by linarith
  then have "1 / x \<le> 2 ^ k" by simp
  then have "1 / 2 ^ k \<le> x"
    using assms by (simp add: field_simps)
  moreover have "0 < k"
    using m(1) by (simp add: k_def floorlog_def)
  moreover have "binade x = - int k"
    using False by (simp add: binade_def m_def k_def)
  ultimately show ?thesis
    by (simp add: pow2_def)
qed

lemma binade_upper:
  assumes "0 < x" shows "x < pow2 (binade x + 1)"
proof (cases "1 \<le> x")
  case True
  define n where "n = nat \<lfloor>x\<rfloor>"
  have n: "0 < n" "x < rat_of_nat n + 1"
    using True by (simp_all add: n_def) linarith
  have "n < 2 ^ floorlog 2 n"
    using floorlog_bounds[of n 2] n(1) by simp
  then have "n + 1 \<le> 2 ^ floorlog 2 n" by simp
  then have "rat_of_nat (n + 1) \<le> rat_of_nat (2 ^ floorlog 2 n)"
    by (simp only: of_nat_le_iff)
  with n(2) have "x < 2 ^ floorlog 2 n"
    by simp
  then show ?thesis
    using True by (simp add: binade_def pow2_def n_def[symmetric])
next
  case False
  define m where "m = nat \<lceil>1 / x\<rceil>"
  define k where "k = floorlog 2 (m - 1)"
  from False assms have "1 < 1 / x" by simp
  then have m: "1 < m" "rat_of_nat m < 1 / x + 1"
    unfolding m_def by (simp_all add: less_ceiling_iff) linarith
  have k: "0 < k"
    using m(1) by (simp add: k_def floorlog_def)
  have "2 ^ (k - 1) \<le> m - 1"
    using floorlog_bounds[of "m - 1" 2] m(1) by (simp add: k_def)
  then have "2 ^ (k - 1) + 1 \<le> m"
    using m(1) by simp
  then have "rat_of_nat (2 ^ (k - 1) + 1) \<le> rat_of_nat m"
    by (simp only: of_nat_le_iff)
  with m(2) have "2 ^ (k - 1) < 1 / x"
    by simp
  then have lt: "x < 1 / 2 ^ (k - 1)"
    using assms by (simp add: field_simps)
  have b: "binade x + 1 = 1 - int k"
    using False by (simp add: binade_def m_def k_def)
  show ?thesis
  proof (cases "k = 1")
    case True
    with lt b show ?thesis by (simp add: pow2_def)
  next
    case F: False
    with k have "nat (int k - 1) = k - 1" "\<not> 0 \<le> 1 - int k"
      by simp_all
    with lt b show ?thesis by (simp add: pow2_def)
  qed
qed

lemma round_ties_even_error: "\<bar>of_int (round_ties_even y) - y\<bar> \<le> 1 / 2"
proof -
  have "of_int \<lfloor>y\<rfloor> \<le> y" "y < of_int \<lfloor>y\<rfloor> + 1"
    by linarith+
  then show ?thesis
    by (auto simp: round_ties_even_def Let_def)
qed

lemma to_double_error:
  assumes "0 < x" shows "\<bar>to_double x - x\<bar> \<le> x / 2 ^ 53"
proof -
  define ulp where "ulp = pow2 (binade x - 52)"
  define r where "r = rat_of_int (round_ties_even (x / ulp))"
  have ulp: "0 < ulp" by (simp add: ulp_def pow2_pos)
  have "ulp = pow2 (binade x) / 2 ^ 52"
    using pow2_diff[of "binade x" 52] by (simp add: ulp_def)
  with binade_lower[OF assms] have le: "ulp \<le> x / 2 ^ 52"
    by (simp add: divide_right_mono)
  have td: "to_double x = r * ulp"
    using assms by (simp add: to_double_def ulp_def r_def Let_def)
  have "r * ulp - x = (r - x / ulp) * ulp"
    using ulp by (simp add: field_simps)
  then have "\<bar>to_double x - x\<bar> = \<bar>r - x / ulp\<bar> * ulp"
    using ulp by (simp only: td abs_mult abs_of_pos)
  also have "\<dots> \<le> (1 / 2) * ulp"
    using round_ties_even_error[of "x / ulp"] ulp unfolding r_def by (intro mult_right_mono) simp_all
  also have "\<dots> \<le> x / 2 ^ 53"
    using le by simp
  finally show ?thesis .
qed


lemma accuracy_off_ties:
  assumes a: "0 < a" "a \<le> 2 ^ 40" and c: "c \<le> a"
    and tie: "(200 * c + a) mod (2 * a) \<noteq> 0"
  shows "accuracy c a = exact_percent c a"
proof (cases "c = 0")
  case True
  with a show ?thesis
    by (simp add: accuracy_def exact_percent_def js_div_def js_mul_def to_double_def Math_round_def)
next
  case False
  define x where "x = rat_of_nat c / rat_of_nat a"
  define q where "q = to_double x"
  define p where "p = to_double (q * 100)"
  define T where "T = 100 * x + 1 / 2"
  define n where "n = (200 * c + a) div (2 * a)"
  define r where "r = (200 * c + a) mod (2 * a)"
  have x: "0 < x" "x \<le> 1"
    using a c False by (simp_all add: x_def)
  have "\<bar>q - x\<bar> \<le> x / 2 ^ 53"
    unfolding q_def using x(1) by (rule to_double_error)
  then have eq: "\<bar>q - x\<bar> \<le> x / 9007199254740992"
    by simp
  have q: "0 < q"
    using eq x(1) by linarith
  have "\<bar>p - q * 100\<bar> \<le> q * 100 / 2 ^ 53"
    unfolding p_def using q by (intro to_double_error) simp
  then have ep: "\<bar>p - q * 100\<bar> \<le> q * 100 / 9007199254740992"
    by simp
  have "\<bar>p - 100 * x\<bar> < 1 / 17592186044416"
    using eq ep x by linarith
  then have close: "\<bar>p - 100 * x\<bar> < 1 / 2 ^ 44"
    by simp
  have r: "0 < r" "r < 2 * a"
    using tie a by (simp_all add: r_def)
  have "200 * c + a = 2 * a * n + r"
    by (simp add: n_def r_def)
  then have "rat_of_nat (200 * c + a) = rat_of_nat (2 * a * n + r)"
    by simp
  then have T: "T = rat_of_nat n + rat_of_nat r / (2 * rat_of_nat a)"
    using a by (simp add: T_def x_def field_simps)
  have apos: "0 < rat_of_nat a"
    using a(1) by simp
  have "1 \<le> r" "r + 1 \<le> 2 * a"
    using r by simp_all
  then have "rat_of_nat 1 \<le> rat_of_nat r" "rat_of_nat (r + 1) \<le> rat_of_nat (2 * a)"
    by (simp_all only: of_nat_le_iff)
  then have rr: "1 \<le> rat_of_nat r" "rat_of_nat r + 1 \<le> 2 * rat_of_nat a"
    by simp_all
  have ra: "1 / (2 * rat_of_nat a) \<le> rat_of_nat r / (2 * rat_of_nat a)"
        "rat_of_nat r / (2 * rat_of_nat a) \<le> 1 - 1 / (2 * rat_of_nat a)"
    using rr apos by (simp_all add: field_simps)
  have "rat_of_nat a \<le> rat_of_nat (2 ^ 40)"
    using a(2) by (simp only: of_nat_le_iff)
  then have "2 * rat_of_nat a \<le> 2 ^ 44"
    by simp
  then have small: "1 / 2 ^ 44 \<le> 1 / (2 * rat_of_nat a)"
    using apos by (intro divide_left_mono) simp_all
  define d where "d = rat_of_nat r / (2 * rat_of_nat a)"
  define e where "e = 1 / (2 * rat_of_nat a)"
  have lin: "100 * x + 1 / 2 = rat_of_nat n + d" "e \<le> d" "d \<le> 1 - e"
      "1 / 17592186044416 \<le> e" "\<bar>p - 100 * x\<bar> < 1 / 17592186044416"
    using T ra small close by (simp_all add: d_def e_def T_def)
  have "rat_of_nat n \<le> p + 1 / 2" "p + 1 / 2 < rat_of_nat n + 1"
    using lin by linarith+
  then have "\<lfloor>p + 1 / 2\<rfloor> = int n"
    by (simp add: floor_unique)
  moreover have "rat_of_nat n \<le> T" "T < rat_of_nat n + 1"
    using lin unfolding T_def by linarith+
  then have "\<lfloor>T\<rfloor> = int n"
    by (simp add: floor_unique)
  ultimately show ?thesis
    using a by (simp add: accuracy_def exact_percent_def Math_round_def js_mul_def js_div_def
        p_def q_def x_def T_def)
qed

lemma foldl_add_sum:
  "foldl (\<lambda>total (w, c). total + f c) n xs = n + sum_list (map (\<lambda>(w, c). f c) xs)"
  by (induction xs arbitrary: n) (simp_all add: split_beta add.assoc)

text \<open>Integers up to \<open>2 ^ 53\<close> are doubles; the increment of a counter stops there.\<close>

lemma pow2_powi: "pow2 e = 2 powi e"
  by (simp add: pow2_def power_int_def inverse_eq_divide power_one_over)

lemma binade_unique:
  assumes "0 < x" "pow2 e \<le> x" "x < pow2 (e + 1)"
  shows "binade x = e"
proof -
  have "pow2 (binade x) < pow2 (e + 1)"
    using binade_lower[OF assms(1)] assms(3) by simp
  then have 1: "binade x < e + 1"
    unfolding pow2_powi by (metis power_int_increasing not_less one_le_numeral)
  have "pow2 e < pow2 (binade x + 1)"
    using binade_upper[OF assms(1)] assms(2) by simp
  then have 2: "e < binade x + 1"
    unfolding pow2_powi by (metis power_int_increasing not_less one_le_numeral)
  from 1 2 show ?thesis by simp
qed

lemma round_ties_even_of_int: "round_ties_even (of_int k) = k"
  by (simp add: round_ties_even_def)

lemma to_double_exact:
  assumes "0 < x" "x / pow2 (binade x - 52) = of_int k"
  shows "to_double x = x"
proof -
  have "to_double x = of_int k * pow2 (binade x - 52)"
    using assms by (simp add: to_double_def Let_def round_ties_even_of_int)
  also have "\<dots> = x"
    using assms(2) pow2_pos[of "binade x - 52"] by (simp add: field_simps)
  finally show ?thesis .
qed

lemma to_double_of_nat:
  assumes "0 < m" "m \<le> 2 ^ 53"
  shows "to_double (rat_of_nat m) = rat_of_nat m"
proof -
  define x where "x = rat_of_nat m"
  define e where "e = binade x"
  have x: "0 < x" "1 \<le> x" "x \<le> 2 ^ 53"
    using assms by (simp_all add: x_def)
  have lo: "pow2 e \<le> x" and hi: "x < pow2 (e + 1)"
    unfolding e_def using x(1) by (rule binade_lower, rule binade_upper)
  have "pow2 0 < pow2 (e + 1)"
    using hi x(2) by (simp add: pow2_def)
  then have e0: "0 \<le> e"
    unfolding pow2_powi by (metis power_int_increasing not_less one_le_numeral zless_add1_eq less_le)
  have "pow2 e < pow2 54"
    using lo x(3) by (simp add: pow2_def)
  then have e53: "e \<le> 53"
    unfolding pow2_powi by (metis power_int_increasing not_less one_le_numeral zle_add1_eq_le
        add.commute numeral_plus_one semiring_norm(5) semiring_norm(8) less_le)
  show ?thesis
  proof (cases "e = 53")
    case True
    with lo x(3) have xv: "x = 2 ^ 53" by (simp add: pow2_def)
    have u: "pow2 (e - 52) = 2" using True by (simp add: pow2_def)
    have "x / pow2 (e - 52) = of_int (2 ^ 52)"
      unfolding u xv by simp
    then have "x / pow2 (binade x - 52) = of_int (2 ^ 52)"
      by (simp only: e_def)
    with x(1) show ?thesis unfolding x_def[symmetric] by (rule to_double_exact)
  next
    case False
    with e53 have le: "e \<le> 52" by simp
    then have u: "pow2 (e - 52) = 1 / 2 ^ nat (52 - e)"
      by (cases "e = 52") (simp_all add: pow2_def)
    have "x / pow2 (e - 52) = of_int (int m * 2 ^ nat (52 - e))"
      unfolding u by (simp add: x_def)
    then have "x / pow2 (binade x - 52) = of_int (int m * 2 ^ nat (52 - e))"
      by (simp only: e_def)
    with x(1) show ?thesis unfolding x_def[symmetric] by (rule to_double_exact)
  qed
qed

lemma js_incr_small: "n < 2 ^ 53 \<Longrightarrow> js_incr n = Suc n"
proof -
  assume "n < 2 ^ 53"
  then have "to_double (rat_of_nat (Suc n)) = rat_of_nat (Suc n)"
    by (intro to_double_of_nat) simp_all
  then have "to_double (rat_of_nat n + 1) = rat_of_nat (Suc n)"
    by (simp add: add.commute)
  then show ?thesis
    by (simp add: js_incr_def del: of_nat_Suc)
qed

lemma js_incr_saturates: "js_incr (2 ^ 53) = 2 ^ 53"
proof -
  have b: "binade 9007199254740993 = 53"
    by (rule binade_unique) (simp_all add: pow2_def)
  have "round_ties_even (9007199254740993 / 2) = 4503599627370496"
    by code_simp
  then have "to_double 9007199254740993 = 9007199254740992"
    by (simp add: to_double_def b pow2_def)
  then show ?thesis
    by (simp add: js_incr_def)
qed

text \<open>
  Claim C7 fails on the code for 23 correct answers out of 40 attempts. The source divides
  first and multiplies then: the quotient \<open>23 / 40\<close> rounds to a double just below 0.575,
  its product with 100 rounds to 57.49999999999999 (the double \<open>8092405580431359 / 2 ^ 47\<close>),
  and \<^verbatim>\<open>Math.round\<close> gives 57, for the summary and for a row alike. The claimed value is
  \<open>100 * 23 / 40 = 57.5\<close> rounded, which is 58; in the order of the claim, \<open>100 * 23\<close> and
  its quotient by 40 are exact in doubles and \<^verbatim>\<open>Math.round\<close> gives 58. The other parts of
  the claim hold on the code: no attempts give 0 without a division, and 7 out of 10 give
  70. The tie 12.5 of 1 out of 8 is computed exactly and goes up to 13.
\<close>

theorem C7_accuracy_tie_rounds_down:
  "js_div 23 40 = 2589569785738035 / 4503599627370496
   \<and> js_mul (js_div 23 40) 100 = 8092405580431359 / 140737488355328
   \<and> accuracy 23 40 = 57
   \<and> summary_accuracy [(''cat'', \<lparr>attempts = 25, cnt_correct = 13\<rparr>),
                        (''big'', \<lparr>attempts = 15, cnt_correct = 10\<rparr>)] = 57
   \<and> row_accuracy \<lparr>attempts = 40, cnt_correct = 23\<rparr> = 57
   \<and> exact_percent 23 40 = 58
   \<and> Math_round (js_div (js_mul 100 23) 40) = 58
   \<and> accuracy 1 8 = 13
   \<and> accuracy 7 10 = 70
   \<and> accuracy 7 0 = 0
   \<and> summary_accuracy [] = 0
   \<and> row_accuracy \<lparr>attempts = 0, cnt_correct = 0\<rparr> = 0"
  by code_simp

section \<open>Properties of the progress store\<close>

text \<open>
  Claim C8. If the uploaded text parses to no entry, the handler raises the alert and
  returns the store unchanged; otherwise the key \<^verbatim>\<open>words\<close> holds exactly the parsed
  sequence and every other key is as before.
\<close>

theorem C8_upload_all_or_nothing:
  "(parseCSV text = [] \<longrightarrow>
      upload_onload text store = (store, Alert ''No entries found in the CSV file.''))
   \<and> (parseCSV text \<noteq> [] \<longrightarrow>
        upload_onload text store
          = (store\<lparr>st_words := Some (Json (parseCSV text))\<rparr>, Uploaded (length (parseCSV text))))"
  by (simp add: upload_onload_def Let_def)



theorem C8_witness:
  "parseCSV ''just some text'' = []
   \<and> upload_onload ''just some text''
        \<lparr>st_username = Some ''ann'', st_words = Some (Json []), st_progress = None\<rparr>
      = (\<lparr>st_username = Some ''ann'', st_words = Some (Json []), st_progress = None\<rparr>,
         Alert ''No entries found in the CSV file.'')
   \<and> parseCSV ''w,m,s,a,e\<newline>cat,feline,kitty,dog,A cat.'' \<noteq> []
   \<and> upload_onload ''w,m,s,a,e\<newline>cat,feline,kitty,dog,A cat.''
        \<lparr>st_username = Some ''ann'', st_words = Some (Json []), st_progress = None\<rparr>
      = (\<lparr>st_username = Some ''ann'',
           st_words = Some (Json [\<lparr>word = ''cat'', meaning = ''feline'', synonyms = [''kitty''],
                                    antonyms = [''dog''], example = ''A cat.''\<rparr>]),
           st_progress = None\<rparr>, Uploaded 1)"
  using C8_upload_all_or_nothing
    [of "''just some text''"
        "\<lparr>st_username = Some ''ann'', st_words = Some (Json []), st_progress = None\<rparr>"]
    C8_upload_all_or_nothing
    [of "''w,m,s,a,e\<newline>cat,feline,kitty,dog,A cat.''"
        "\<lparr>st_username = Some ''ann'', st_words = Some (Json []), st_progress = None\<rparr>"]
  by (simp add: parseCSV_def trim_def is_space_def parse_list_def)

lemma and_then_Inr [simp]: "and_then (Inr s) f = f s"
  by (simp add: and_then_def)

lemma and_then_Inl [simp]: "and_then (Inl e) f = Inl e"
  by (simp add: and_then_def)

lemma final_store_simps [simp]:
  "final_store (Inr s) = s" "final_store (Inl (e, s)) = s"
  by (simp_all add: final_store_def)

lemma raised_simps [simp]:
  "raised (Inr s) = None" "raised (Inl (e, s)) = Some e"
  by (simp_all add: raised_def)

lemma load_progress_Json [simp]:
  "load_progress (store\<lparr>st_progress := Some (Json p)\<rparr>) = p"
  by (simp add: load_progress_def)

lemma inherited_not_empty: "inherited u \<Longrightarrow> u \<noteq> []"
  by (auto simp: inherited_def function_keys_def)

text \<open>
  A call for a user with an own dictionary, or with a name that is not inherited, returns,
  and the persisted dictionary of the user is the old one run through the results.
\<close>

lemma updateProgress_own:
  assumes "u \<noteq> []" "load_progress store u \<noteq> None \<or> \<not> inherited u"
  shows "updateProgress u rs store
         = Inr (store\<lparr>st_progress := Some (Json ((load_progress store)
                   (u \<mapsto> foldl record_result
                           (case load_progress store u of None \<Rightarrow> Map.empty | Some up \<Rightarrow> up) rs)))\<rparr>)"
  using assms by (auto simp: updateProgress_def Let_def split: option.splits)

text \<open>
  A call for a user whose name is inherited and not an own key persists the dictionaries
  as they were, unless a lookup throws.
\<close>

lemma updateProgress_inherited:
  assumes "load_progress store u = None" "inherited u"
  shows "updateProgress u rs store
         = (if list_ex (\<lambda>res. lookup_throws u (res_word res)) rs then Inl (TypeError, store)
            else Inr (store\<lparr>st_progress := Some (Json (load_progress store))\<rparr>))"
  using assms inherited_not_empty [of u] by (simp add: updateProgress_def Let_def)

lemma updateProgress_returns:
  "\<not> inherited u \<Longrightarrow> \<exists>s. updateProgress u rs store = Inr s"
  by (auto simp: updateProgress_def Let_def split: option.splits)

text \<open>The counter of a word after one result, and after a sequence of results.\<close>

lemma record_result_lookup:
  "record_result up r w =
     (if w = res_word r \<and> (up w \<noteq> None \<or> \<not> inherited w)
      then Some \<lparr>attempts = js_incr (attempts (old_counter (up w))),
                 cnt_correct = (if res_correct r then js_incr (cnt_correct (old_counter (up w)))
                                else cnt_correct (old_counter (up w)))\<rparr>
      else up w)"
  by (auto simp: record_result_def Let_def old_counter_def split: option.splits)

lemma filter_word_absent:
  "w \<notin> res_word ` set rs \<Longrightarrow> filter (\<lambda>r. res_word r = w) rs = []"
  "w \<notin> res_word ` set rs \<Longrightarrow> filter (\<lambda>r. res_word r = w \<and> res_correct r) rs = []"
  by (auto simp: filter_empty_conv)

lemma foldl_record_result_lookup:
  "foldl record_result up rs w =
     (if w \<in> res_word ` set rs \<and> (up w \<noteq> None \<or> \<not> inherited w)
      then Some \<lparr>attempts = (js_incr ^^ length (filter (\<lambda>r. res_word r = w) rs))
                              (attempts (old_counter (up w))),
                 cnt_correct = (js_incr ^^ length (filter (\<lambda>r. res_word r = w \<and> res_correct r) rs))
                              (cnt_correct (old_counter (up w)))\<rparr>
      else up w)"
proof (induction rs arbitrary: up)
  case Nil
  show ?case by simp
next
  case (Cons r rs)
  show ?case
    unfolding foldl_Cons Cons.IH
    by (auto simp: record_result_lookup old_counter_def funpow_swap1 filter_word_absent)
qed

lemma js_incr_funpow: "a + n \<le> 2 ^ 53 \<Longrightarrow> (js_incr ^^ n) a = a + n"
  by (induction n) (simp_all add: js_incr_small)

text \<open>
  The frame of a call: the user name, the word list and the dictionaries of the other
  users are as before, also when the call throws; for the user, the counters of the words
  that do not occur in the results are as before.
\<close>

lemma updateProgress_frame:
  "st_username (final_store (updateProgress u rs store)) = st_username store"
  "st_words (final_store (updateProgress u rs store)) = st_words store"
  "u' \<noteq> u \<Longrightarrow> load_progress (final_store (updateProgress u rs store)) u' = load_progress store u'"
  "w \<notin> res_word ` set rs \<Longrightarrow>
     counter_of (final_store (updateProgress u rs store)) u' w = counter_of store u' w"
proof -
  show "st_username (final_store (updateProgress u rs store)) = st_username store"
    by (simp add: updateProgress_def Let_def split: option.splits)
  show "st_words (final_store (updateProgress u rs store)) = st_words store"
    by (simp add: updateProgress_def Let_def split: option.splits)
  show "load_progress (final_store (updateProgress u rs store)) u' = load_progress store u'"
    if "u' \<noteq> u"
    using that by (simp add: updateProgress_def Let_def split: option.splits)
  show "counter_of (final_store (updateProgress u rs store)) u' w = counter_of store u' w"
    if "w \<notin> res_word ` set rs"
    using that
    by (auto simp: updateProgress_def Let_def counter_of_def foldl_record_result_lookup
        split: option.splits if_splits)
qed

text \<open>
  The counters of a user with an ordinary name, for a word with an ordinary name and
  counters that stay below \<open>2 ^ 53\<close>: attempts grow by the number of results for the word,
  correct answers by the number of correct ones.
\<close>

lemma updateProgress_counts:
  assumes u: "u \<noteq> []" "\<not> inherited u" and w: "\<not> inherited w" "w \<in> res_word ` set rs"
    and b: "attempts (old_counter (counter_of store u w)) + length rs \<le> 2 ^ 53"
           "cnt_correct (old_counter (counter_of store u w)) + length rs \<le> 2 ^ 53"
  shows "counter_of (final_store (updateProgress u rs store)) u w
         = Some \<lparr>attempts = attempts (old_counter (counter_of store u w))
                              + length (filter (\<lambda>r. res_word r = w) rs),
                 cnt_correct = cnt_correct (old_counter (counter_of store u w))
                              + length (filter (\<lambda>r. res_word r = w \<and> res_correct r) rs)\<rparr>"
proof -
  define up where "up = (case load_progress store u of None \<Rightarrow> Map.empty | Some up \<Rightarrow> up)"
  have c: "old_counter (counter_of store u w) = old_counter (up w)"
    by (simp add: counter_of_def up_def old_counter_def split: option.splits)
  have l: "length (filter P rs) \<le> length rs" for P :: "SessionResult \<Rightarrow> bool"
    by simp
  have a1: "attempts (old_counter (up w)) + length (filter (\<lambda>r. res_word r = w) rs) \<le> 2 ^ 53"
    using b(1) l [of "\<lambda>r. res_word r = w"] unfolding c by linarith
  have a2: "cnt_correct (old_counter (up w))
            + length (filter (\<lambda>r. res_word r = w \<and> res_correct r) rs) \<le> 2 ^ 53"
    using b(2) l [of "\<lambda>r. res_word r = w \<and> res_correct r"] unfolding c by linarith
  have "counter_of (final_store (updateProgress u rs store)) u w = foldl record_result up rs w"
    using u by (simp add: updateProgress_own counter_of_def up_def)
  also have "\<dots> = Some \<lparr>attempts = attempts (old_counter (up w))
                              + length (filter (\<lambda>r. res_word r = w) rs),
                 cnt_correct = cnt_correct (old_counter (up w))
                              + length (filter (\<lambda>r. res_word r = w \<and> res_correct r) rs)\<rparr>"
    using w by (simp add: foldl_record_result_lookup js_incr_funpow [OF a1] js_incr_funpow [OF a2])
  finally show ?thesis
    unfolding c .
qed

text \<open>A call that throws: the user \<^verbatim>\<open>toString\<close> and the word \<^verbatim>\<open>caller\<close>.\<close>

lemma updateProgress_throws_example:
  "updateProgress ''toString'' [\<lparr>res_word = ''caller'', res_correct = False\<rparr>]
      \<lparr>st_username = Some ''toString'', st_words = None, st_progress = None\<rparr>
   = Inl (TypeError, \<lparr>st_username = Some ''toString'', st_words = None, st_progress = None\<rparr>)"
  by (simp add: updateProgress_def load_progress_def inherited_def function_keys_def
      lookup_throws_def)

text \<open>
  Claim C4. For every user name and all result sequences \<open>r1\<close> and \<open>r2\<close>, from any initial
  store (key absent, unparsable, or holding counters), the call with \<open>r1\<close> followed by the
  call with \<open>r2\<close> leaves the same persisted counters of every user and word, the same user
  name and the same word list as the single call with \<open>r1 @ r2\<close>, and ends with an error
  exactly when the single call does. When the single call returns, the two runs leave
  the same store altogether; it returns for every user name that is not inherited.
\<close>

theorem C4_updateProgress_append:
  "load_progress (final_store (and_then (updateProgress u r1 store) (updateProgress u r2)))
     = load_progress (final_store (updateProgress u (r1 @ r2) store))
   \<and> st_username (final_store (and_then (updateProgress u r1 store) (updateProgress u r2)))
     = st_username (final_store (updateProgress u (r1 @ r2) store))
   \<and> st_words (final_store (and_then (updateProgress u r1 store) (updateProgress u r2)))
     = st_words (final_store (updateProgress u (r1 @ r2) store))
   \<and> raised (and_then (updateProgress u r1 store) (updateProgress u r2))
     = raised (updateProgress u (r1 @ r2) store)
   \<and> (raised (updateProgress u (r1 @ r2) store) = None \<longrightarrow>
        and_then (updateProgress u r1 store) (updateProgress u r2)
          = updateProgress u (r1 @ r2) store)
   \<and> (\<not> inherited u \<longrightarrow> raised (updateProgress u (r1 @ r2) store) = None)"
proof (cases "u = []")
  case True
  then show ?thesis by (simp add: updateProgress_def)
next
  case False
  show ?thesis
  proof (cases "load_progress store u \<noteq> None \<or> \<not> inherited u")
    case True
    define up where "up = (case load_progress store u of None \<Rightarrow> Map.empty | Some up \<Rightarrow> up)"
    have 1: "updateProgress u rs store
             = Inr (store\<lparr>st_progress :=
                      Some (Json ((load_progress store)(u \<mapsto> foldl record_result up rs)))\<rparr>)" for rs
      using False True by (simp add: updateProgress_own up_def)
    have 2: "updateProgress u r2
               (store\<lparr>st_progress :=
                  Some (Json ((load_progress store)(u \<mapsto> foldl record_result up r1)))\<rparr>)
             = Inr (store\<lparr>st_progress :=
                  Some (Json ((load_progress store)(u \<mapsto> foldl record_result up (r1 @ r2))))\<rparr>)"
      using False by (simp add: updateProgress_own)
    show ?thesis
      by (simp add: 1 2)
  next
    case inh: False
    have 1: "updateProgress u rs store
             = (if list_ex (\<lambda>res. lookup_throws u (res_word res)) rs then Inl (TypeError, store)
                else Inr (store\<lparr>st_progress := Some (Json (load_progress store))\<rparr>))" for rs
      using inh by (simp add: updateProgress_inherited)
    have 2: "updateProgress u r2 (store\<lparr>st_progress := Some (Json (load_progress store))\<rparr>)
             = (if list_ex (\<lambda>res. lookup_throws u (res_word res)) r2
                then Inl (TypeError, store\<lparr>st_progress := Some (Json (load_progress store))\<rparr>)
                else Inr (store\<lparr>st_progress := Some (Json (load_progress store))\<rparr>))"
      using inh by (simp add: updateProgress_inherited)
    show ?thesis
      using inh by (simp add: 1 2)
  qed
qed

theorem C4_witness:
  "\<not> inherited ''ann''
   \<and> raised (updateProgress ''ann''
        ([\<lparr>res_word = ''cat'', res_correct = False\<rparr>]
         @ [\<lparr>res_word = ''cat'', res_correct = True\<rparr>, \<lparr>res_word = ''dog'', res_correct = True\<rparr>])
        \<lparr>st_username = Some ''ann'', st_words = None, st_progress = Some (Garbage ''{'')\<rparr>) = None
   \<and> and_then
        (updateProgress ''ann'' [\<lparr>res_word = ''cat'', res_correct = False\<rparr>]
           \<lparr>st_username = Some ''ann'', st_words = None, st_progress = Some (Garbage ''{'')\<rparr>)
        (updateProgress ''ann''
           [\<lparr>res_word = ''cat'', res_correct = True\<rparr>, \<lparr>res_word = ''dog'', res_correct = True\<rparr>])
     = updateProgress ''ann''
        ([\<lparr>res_word = ''cat'', res_correct = False\<rparr>]
         @ [\<lparr>res_word = ''cat'', res_correct = True\<rparr>, \<lparr>res_word = ''dog'', res_correct = True\<rparr>])
        \<lparr>st_username = Some ''ann'', st_words = None, st_progress = Some (Garbage ''{'')\<rparr>
   \<and> updateProgress ''ann''
        ([\<lparr>res_word = ''cat'', res_correct = False\<rparr>]
         @ [\<lparr>res_word = ''cat'', res_correct = True\<rparr>, \<lparr>res_word = ''dog'', res_correct = True\<rparr>])
        \<lparr>st_username = Some ''ann'', st_words = None, st_progress = Some (Garbage ''{'')\<rparr>
     = Inr \<lparr>st_username = Some ''ann'', st_words = None,
            st_progress = Some (Json [''ann'' \<mapsto> [''cat'' \<mapsto> \<lparr>attempts = 2, cnt_correct = 1\<rparr>,
                                                   ''dog'' \<mapsto> \<lparr>attempts = 1, cnt_correct = 1\<rparr>]])\<rparr>"
proof -
  have i: "js_incr 0 = 1" "js_incr 1 = 2"
    by code_simp+
  have n: "\<not> inherited ''ann''"
    by (simp add: inherited_def function_keys_def)
  have e: "updateProgress ''ann''
        ([\<lparr>res_word = ''cat'', res_correct = False\<rparr>]
         @ [\<lparr>res_word = ''cat'', res_correct = True\<rparr>, \<lparr>res_word = ''dog'', res_correct = True\<rparr>])
        \<lparr>st_username = Some ''ann'', st_words = None, st_progress = Some (Garbage ''{'')\<rparr>
     = Inr \<lparr>st_username = Some ''ann'', st_words = None,
            st_progress = Some (Json [''ann'' \<mapsto> [''cat'' \<mapsto> \<lparr>attempts = 2, cnt_correct = 1\<rparr>,
                                                   ''dog'' \<mapsto> \<lparr>attempts = 1, cnt_correct = 1\<rparr>]])\<rparr>"
    using i by (simp add: updateProgress_def load_progress_def record_result_def inherited_def
        function_keys_def)
  show ?thesis
    using C4_updateProgress_append
      [of "''ann''" "[\<lparr>res_word = ''cat'', res_correct = False\<rparr>]"
          "\<lparr>st_username = Some ''ann'', st_words = None, st_progress = Some (Garbage ''{'')\<rparr>"
          "[\<lparr>res_word = ''cat'', res_correct = True\<rparr>, \<lparr>res_word = ''dog'', res_correct = True\<rparr>]"]
      n e
    by simp
qed

text \<open>
  Claim C10 fails on the code for a word that is an inherited name. For the user
  \<^verbatim>\<open>ann\<close> and the results \<^verbatim>\<open>constructor\<close> (correct) and \<^verbatim>\<open>cat\<close> (correct) on an empty
  store, the lookup of \<^verbatim>\<open>constructor\<close> in the user's dictionary finds the inherited
  function, so no counter is created and the two additions are lost: the persisted
  dictionary holds the counter of \<^verbatim>\<open>cat\<close> only, where the claim has a counter with one
  attempt and one correct answer for each of the two words. A user named \<^verbatim>\<open>constructor\<close>
  gets no dictionary at all, and a counter that has reached \<open>2 ^ 53\<close> is not incremented
  any more.
\<close>

theorem C10_inherited_word_not_counted:
  "updateProgress ''ann''
      [\<lparr>res_word = ''constructor'', res_correct = True\<rparr>,
       \<lparr>res_word = ''cat'', res_correct = True\<rparr>]
      \<lparr>st_username = Some ''ann'', st_words = None, st_progress = None\<rparr>
     = Inr \<lparr>st_username = Some ''ann'', st_words = None,
            st_progress = Some (Json [''ann'' \<mapsto> [''cat'' \<mapsto> \<lparr>attempts = 1, cnt_correct = 1\<rparr>]])\<rparr>
   \<and> counter_of
        (final_store (updateProgress ''ann''
           [\<lparr>res_word = ''constructor'', res_correct = True\<rparr>,
            \<lparr>res_word = ''cat'', res_correct = True\<rparr>]
           \<lparr>st_username = Some ''ann'', st_words = None, st_progress = None\<rparr>))
        ''ann'' ''constructor'' = None
   \<and> counter_of
        (final_store (updateProgress ''ann''
           [\<lparr>res_word = ''constructor'', res_correct = True\<rparr>,
            \<lparr>res_word = ''cat'', res_correct = True\<rparr>]
           \<lparr>st_username = Some ''ann'', st_words = None, st_progress = None\<rparr>))
        ''ann'' ''cat'' = Some \<lparr>attempts = 1, cnt_correct = 1\<rparr>
   \<and> updateProgress ''constructor'' [\<lparr>res_word = ''cat'', res_correct = True\<rparr>]
      \<lparr>st_username = Some ''constructor'', st_words = None, st_progress = None\<rparr>
     = Inr \<lparr>st_username = Some ''constructor'', st_words = None,
            st_progress = Some (Json Map.empty)\<rparr>
   \<and> js_incr (2 ^ 53) = 2 ^ 53"
proof -
  have "js_incr 0 = 1" by code_simp
  then show ?thesis
    by (intro conjI js_incr_saturates)
      (simp_all add: updateProgress_def load_progress_def record_result_def inherited_def
        function_keys_def lookup_throws_def counter_of_def)
qed

end
